theory Spec2Isabelle
  imports Complex_Main "HOL-Library.Char_ord" "HOL-Library.Product_Lexorder" "HOL-Library.Multiset"
begin

section \<open>Text and regular expressions\<close>

text \<open>
  Python strings are modelled as \<open>string\<close>: lists of 8-bit characters, read as the code
  points below 256 (Latin-1). On these the character classes below are Python's: \<open>\s\<close> and
  \<open>str.isspace\<close> (\<open>is_space\<close>), \<open>\w\<close> (\<open>is_word\<close>), \<open>\d\<close> and \<open>[0-9]\<close> (\<open>is_digit\<close>),
  \<open>str.isdigit\<close> (\<open>str_isdigit\<close>), \<open>str.lower\<close> and \<open>str.upper\<close>. Python floats are
  modelled as exact rationals: the constants 0.5, 0.25, 0.75 and 1.0 of the rule engine are
  exact in binary floating point, and the threshold comparisons are read over the
  rationals.
\<close>

definition is_digit :: "char \<Rightarrow> bool" where
  "is_digit c = (CHR ''0'' \<le> c \<and> c \<le> CHR ''9'')"

definition is_upper :: "char \<Rightarrow> bool" where
  "is_upper c = (CHR ''A'' \<le> c \<and> c \<le> CHR ''Z'')"

definition is_lower :: "char \<Rightarrow> bool" where
  "is_lower c = (CHR ''a'' \<le> c \<and> c \<le> CHR ''z'')"

text \<open>\<open>is_alnum\<close> is the class \<open>[A-Za-z0-9]\<close> of the patterns.\<close>

definition is_alnum :: "char \<Rightarrow> bool" where
  "is_alnum c = (is_lower c \<or> is_upper c \<or> is_digit c)"

text \<open>
  The letters of Latin-1 beyond ASCII: the capitals \<open>0xC0\<close> to \<open>0xDE\<close> without the
  multiplication sign \<open>0xD7\<close>, the small letters \<open>0xDF\<close> to \<open>0xFF\<close> without the division sign
  \<open>0xF7\<close>, and the ordinal indicators and the micro sign.
\<close>

definition is_latin_upper :: "char \<Rightarrow> bool" where
  "is_latin_upper c = (CHR 0xC0 \<le> c \<and> c \<le> CHR 0xDE \<and> c \<noteq> CHR 0xD7)"

definition is_latin_lower :: "char \<Rightarrow> bool" where
  "is_latin_lower c = (CHR 0xDF \<le> c \<and> c \<le> CHR 0xFF \<and> c \<noteq> CHR 0xF7)"

definition is_latin_alpha :: "char \<Rightarrow> bool" where
  "is_latin_alpha c = (is_latin_upper c \<or> is_latin_lower c
     \<or> c = CHR 0xAA \<or> c = CHR 0xB5 \<or> c = CHR 0xBA)"

text \<open>
  \<open>str.isdigit\<close> also holds of the superscripts one, two and three; \<open>\w\<close> is
  \<open>str.isalnum\<close> or the underscore, and \<open>str.isalnum\<close> holds of letters, of the characters
  of \<open>str.isdigit\<close> and of the three fractions \<open>0xBC\<close> to \<open>0xBE\<close>.
\<close>

definition str_isdigit :: "char \<Rightarrow> bool" where
  "str_isdigit c = (is_digit c \<or> c = CHR 0xB2 \<or> c = CHR 0xB3 \<or> c = CHR 0xB9)"

definition is_word :: "char \<Rightarrow> bool" where
  "is_word c = (is_alnum c \<or> c = CHR ''_'' \<or> is_latin_alpha c \<or> str_isdigit c
     \<or> (CHR 0xBC \<le> c \<and> c \<le> CHR 0xBE))"

definition is_space :: "char \<Rightarrow> bool" where
  "is_space c = (c = CHR '' '' \<or> (CHR 0x09 \<le> c \<and> c \<le> CHR 0x0D) \<or> (CHR 0x1C \<le> c \<and> c \<le> CHR 0x1F)
     \<or> c = CHR 0x85 \<or> c = CHR 0xA0)"

definition lower_char :: "char \<Rightarrow> char" where
  "lower_char c = (if is_upper c \<or> is_latin_upper c then char_of (of_char c + (32::nat)) else c)"

definition lower :: "string \<Rightarrow> string" where
  "lower s = map lower_char s"

text \<open>
  \<open>str.upper\<close> turns the sharp s \<open>0xDF\<close> into \<open>SS\<close>. The upper-case forms of the micro sign
  \<open>0xB5\<close> and of \<open>0xFF\<close> are code points above 255; these two characters are kept. The only
  caller, \<open>norm_name\<close>, goes on to replace every character outside \<open>[A-Z0-9& ]\<close> by a
  space, the kept characters as it would their upper-case forms.
\<close>

definition upper_char :: "char \<Rightarrow> string" where
  "upper_char c =
     (if c = CHR 0xDF then ''SS''
      else if is_lower c \<or> (is_latin_lower c \<and> c \<noteq> CHR 0xFF)
      then [char_of (of_char c - (32::nat))]
      else [c])"

definition upper :: "string \<Rightarrow> string" where
  "upper s = concat (map upper_char s)"

text \<open>\<open>starts_with p s\<close> is \<open>s.startswith(p)\<close>; \<open>py_in p s\<close> is Python's \<open>p in s\<close> on strings.\<close>

fun starts_with :: "string \<Rightarrow> string \<Rightarrow> bool" where
  "starts_with [] s = True"
| "starts_with (p # ps) [] = False"
| "starts_with (p # ps) (c # cs) = (p = c \<and> starts_with ps cs)"

fun py_in :: "string \<Rightarrow> string \<Rightarrow> bool" where
  "py_in p [] = (p = [])"
| "py_in p (c # cs) = (starts_with p (c # cs) \<or> py_in p cs)"

text \<open>\<open>join sep xs\<close> is \<open>sep.join(xs)\<close>.\<close>

fun join :: "string \<Rightarrow> string list \<Rightarrow> string" where
  "join sep [] = []"
| "join sep [x] = x"
| "join sep (x # y # ys) = x @ sep @ join sep (y # ys)"

text \<open>
  \<open>replace_go old new k s\<close> is \<open>s.replace(old, new)\<close> for a non-empty \<open>old\<close>, scanning left
  to right; \<open>k\<close> counts the characters of the current occurrence still to be skipped.
\<close>

fun replace_go :: "string \<Rightarrow> string \<Rightarrow> nat \<Rightarrow> string \<Rightarrow> string" where
  "replace_go old new k [] = []"
| "replace_go old new (Suc k) (c # cs) = replace_go old new k cs"
| "replace_go old new 0 (c # cs) =
     (if starts_with old (c # cs) then new @ replace_go old new (length old - 1) cs
      else c # replace_go old new 0 cs)"

definition replace :: "string \<Rightarrow> string \<Rightarrow> string \<Rightarrow> string" where
  "replace s old new = replace_go old new 0 s"

definition strip :: "string \<Rightarrow> string" where
  "strip s = rev (dropWhile is_space (rev (dropWhile is_space s)))"

text \<open>
  The fragment of Python's \<open>re\<close> syntax that the patterns of the repository use. A
  repetition is always over a single character class (\<open>\s+\<close>, \<open>.*\<close>, \<open>[:\s-]*\<close>), with
  its minimum count and its greediness; \<open>{n}\<close> is unfolded by \<open>times\<close>.
\<close>

datatype rx =
    Eps
  | Atom "char \<Rightarrow> bool"
  | Seq rx rx
  | Alt rx rx
  | Opt rx
  | Star "char \<Rightarrow> bool" nat bool
  | WordB
  | EndA

text \<open>
  A position is the character before the cursor (if any) and the text after it.
  \<open>ends r s\<close> lists the positions at which a match of \<open>r\<close> that starts at \<open>s\<close> can end, in
  the order in which the backtracking matcher tries them: the left branch of an
  alternation first, a greedy repetition from its longest run down, a lazy one from its
  shortest run up. \<open>EndA\<close> is \<open>$\<close> without the MULTILINE flag: the end of the text, or just
  before a final newline.
\<close>

type_synonym pos = "char option \<times> string"

fun runs :: "(char \<Rightarrow> bool) \<Rightarrow> pos \<Rightarrow> pos list" where
  "runs p (b, []) = [(b, [])]"
| "runs p (b, c # cs) = (b, c # cs) # (if p c then runs p (Some c, cs) else [])"

fun ends :: "rx \<Rightarrow> pos \<Rightarrow> pos list" where
  "ends Eps s = [s]"
| "ends (Atom p) (b, []) = []"
| "ends (Atom p) (b, c # cs) = (if p c then [(Some c, cs)] else [])"
| "ends (Seq r1 r2) s = concat (map (ends r2) (ends r1 s))"
| "ends (Alt r1 r2) s = ends r1 s @ ends r2 s"
| "ends (Opt r) s = ends r s @ [s]"
| "ends (Star p m greedy) s = (let xs = drop m (runs p s) in if greedy then rev xs else xs)"
| "ends WordB (b, cs) =
     (if (case b of None \<Rightarrow> False | Some c \<Rightarrow> is_word c)
         \<noteq> (case cs of [] \<Rightarrow> False | c # _ \<Rightarrow> is_word c)
      then [(b, cs)] else [])"
| "ends EndA (b, cs) = (if cs = [] \<or> cs = [CHR 0x0A] then [(b, cs)] else [])"

text \<open>
  \<open>find_from r b cs\<close> is \<open>r.search\<close>: the leftmost start at which \<open>r\<close> matches, with the
  first end the matcher finds there; it returns the matched text, \<open>m.group(0)\<close>.
\<close>

fun find_from :: "rx \<Rightarrow> char option \<Rightarrow> string \<Rightarrow> string option" where
  "find_from r b cs =
     (case ends r (b, cs) of
        (_, rest) # _ \<Rightarrow> Some (take (length cs - length rest) cs)
      | [] \<Rightarrow> (case cs of [] \<Rightarrow> None | c # cs' \<Rightarrow> find_from r (Some c) cs'))"

text \<open>
  \<open>find_group r1 r2 b cs\<close> searches for the pattern \<open>r1(r2)\<close> and returns the text of the
  group, \<open>m.group(1)\<close>.
\<close>

fun find_group :: "rx \<Rightarrow> rx \<Rightarrow> char option \<Rightarrow> string \<Rightarrow> string option" where
  "find_group r1 r2 b cs =
     (case concat (map (\<lambda>s. map (Pair s) (ends r2 s)) (ends r1 (b, cs))) of
        ((_, mid), (_, rest)) # _ \<Rightarrow> Some (take (length mid - length rest) mid)
      | [] \<Rightarrow> (case cs of [] \<Rightarrow> None | c # cs' \<Rightarrow> find_group r1 r2 (Some c) cs'))"

text \<open>
  \<open>scan r b k cs\<close> walks the text once and yields the non-overlapping matches of \<open>r\<close>,
  leftmost first, between the characters no match covers; \<open>k\<close> counts the characters
  of the current match still to be skipped. It is the common loop of \<open>re.sub\<close> and
  \<open>re.findall\<close>.
\<close>

datatype piece = Gap char | Hit string

fun scan :: "rx \<Rightarrow> char option \<Rightarrow> nat \<Rightarrow> string \<Rightarrow> piece list" where
  "scan r b k [] = (if k = 0 \<and> ends r (b, []) \<noteq> [] then [Hit []] else [])"
| "scan r b (Suc k) (c # cs) = scan r (Some c) k cs"
| "scan r b 0 (c # cs) =
     (case ends r (b, c # cs) of
        [] \<Rightarrow> Gap c # scan r (Some c) 0 cs
      | (_, rest) # _ \<Rightarrow>
          (let n = length (c # cs) - length rest in
           if n = 0 then Hit [] # Gap c # scan r (Some c) 0 cs
           else Hit (take n (c # cs)) # scan r (Some c) (n - 1) cs))"

definition re_sub :: "rx \<Rightarrow> string \<Rightarrow> string \<Rightarrow> string" where
  "re_sub r repl s =
     concat (map (\<lambda>p. case p of Gap c \<Rightarrow> [c] | Hit _ \<Rightarrow> repl) (scan r None 0 s))"

definition findall :: "rx \<Rightarrow> string \<Rightarrow> string list" where
  "findall r s = concat (map (\<lambda>p. case p of Gap _ \<Rightarrow> [] | Hit m \<Rightarrow> [m]) (scan r None 0 s))"

text \<open>Combinators for writing the patterns down.\<close>

definition seqs :: "rx list \<Rightarrow> rx" where
  "seqs rs = foldr Seq rs Eps"

definition alts :: "rx list \<Rightarrow> rx" where
  "alts rs = foldr Alt (butlast rs) (last rs)"

definition times :: "nat \<Rightarrow> rx \<Rightarrow> rx" where
  "times n r = seqs (replicate n r)"

definition chr :: "char \<Rightarrow> rx" where
  "chr a = Atom (\<lambda>c. c = a)"

text \<open>Under \<open>re.I\<close> a letter of the pattern matches both of its cases.\<close>

definition chr_i :: "char \<Rightarrow> rx" where
  "chr_i a = Atom (\<lambda>c. lower_char c = lower_char a)"

definition lit :: "string \<Rightarrow> rx" where
  "lit s = seqs (map chr s)"

definition lit_i :: "string \<Rightarrow> rx" where
  "lit_i s = seqs (map chr_i s)"

definition letter :: rx where
  "letter = Atom (\<lambda>c. is_upper c \<or> is_lower c)"

definition digit :: rx where
  "digit = Atom is_digit"

definition sp0 :: rx where
  "sp0 = Star is_space 0 True"

definition sp1 :: rx where
  "sp1 = Star is_space 1 True"

text \<open>\<open>phrase ws\<close> is the words of \<open>ws\<close> separated by \<open>\s+\<close>; \<open>bw r\<close> is \<open>\b r \b\<close>.\<close>

fun phrase_list :: "string list \<Rightarrow> rx list" where
  "phrase_list [] = []"
| "phrase_list [w] = [lit_i w]"
| "phrase_list (w # v # ws) = lit_i w # sp1 # phrase_list (v # ws)"

definition phrase :: "string list \<Rightarrow> rx" where
  "phrase ws = seqs (phrase_list ws)"

definition bw :: "rx \<Rightarrow> rx" where
  "bw r = seqs [WordB, r, WordB]"

text \<open>
  A compiled pattern keeps its source text (\<open>r.pattern\<close>). The text is written with \<open>~\<close>
  for the backslash, which \<open>pat\<close> puts back.
\<close>

record regex =
  pattern :: string
  prog :: rx

definition pat :: "string \<Rightarrow> string" where
  "pat s = map (\<lambda>c. if c = CHR ''~'' then CHR 0x5C else c) s"

definition rx_compile :: "string \<Rightarrow> rx \<Rightarrow> regex" where
  "rx_compile p r = \<lparr>pattern = pat p, prog = r\<rparr>"

definition search :: "regex \<Rightarrow> string \<Rightarrow> string option" where
  "search r text = find_from (prog r) None text"

section \<open>The rule engine (rules.py)\<close>

subsection \<open>Strong identifiers and corporate markers\<close>

definition PAN_RX :: regex where
  "PAN_RX = rx_compile ''~b[A-Z]{5}[0-9]{4}[A-Z]~b''
     (bw (seqs [times 5 letter, times 4 digit, letter]))"

definition TAN_RX :: regex where
  "TAN_RX = rx_compile ''~b[A-Z]{4}[0-9]{5}[A-Z]~b''
     (bw (seqs [times 4 letter, times 5 digit, letter]))"

definition GSTIN_RX :: regex where
  "GSTIN_RX = rx_compile ''~b~d{2}[A-Z]{5}~d{4}[A-Z][1-9A-Z]Z[0-9A-Z]~b''
     (bw (seqs [times 2 digit, times 5 letter, times 4 digit, letter,
        Atom (\<lambda>c. (CHR ''1'' \<le> c \<and> c \<le> CHR ''9'') \<or> is_upper c \<or> is_lower c),
        chr_i CHR ''Z'', Atom is_alnum]))"

text \<open>\<open>LEI_RX\<close> is compiled with \<open>re.I | re.S\<close>: its dot matches every character.\<close>

definition LEI_RX :: regex where
  "LEI_RX = rx_compile ''~b(?:Legal~s+Entity~s+Identifier|LEI)~b.*?~b([A-Z0-9]{20})~b''
     (seqs [WordB, alts [phrase [''Legal'', ''Entity'', ''Identifier''], lit_i ''LEI''], WordB,
        Star (\<lambda>c. True) 0 False, WordB, times 20 (Atom is_alnum), WordB])"

definition CIN_RX :: regex where
  "CIN_RX = rx_compile ''~b[UL]~d{2}[A-Z]{3}~d{4}[A-Z]{3}~d{6}~b''
     (bw (seqs [alts [chr_i CHR ''U'', chr_i CHR ''L''], times 2 digit, times 3 letter,
        times 4 digit, times 3 letter, times 6 digit]))"

definition LLPIN_RX :: regex where
  "LLPIN_RX = rx_compile ''~bLLPIN~b[:~s-]*[A-Z]{3}-?~d{4}~b''
     (seqs [WordB, lit_i ''LLPIN'', WordB,
        Star (\<lambda>c. c = CHR '':'' \<or> is_space c \<or> c = CHR ''-'') 0 True,
        times 3 letter, Opt (chr CHR ''-''), times 4 digit, WordB])"

definition COI_RX :: regex where
  "COI_RX = rx_compile ''~bCertificate~s+of~s+Incorporation~b|~bCOI~b''
     (alts [bw (phrase [''Certificate'', ''of'', ''Incorporation'']), bw (lit_i ''COI'')])"

definition MOA_RX :: regex where
  "MOA_RX = rx_compile ''~bMemorandum~s+of~s+Association~b|~bMOA~b''
     (alts [bw (phrase [''Memorandum'', ''of'', ''Association'']), bw (lit_i ''MOA'')])"

definition AOA_RX :: regex where
  "AOA_RX = rx_compile ''~bArticles~s+of~s+Association~b|~bAOA~b''
     (alts [bw (phrase [''Articles'', ''of'', ''Association'']), bw (lit_i ''AOA'')])"

definition COMPANY_MARKERS_RX :: regex where
  "COMPANY_MARKERS_RX = rx_compile
     ''~b(Pvt~.?|Private)~s+Limited~b|~bLLP~b|~bLLPIN~b|~bCIN~b|~bCompany~b|~bInc~b|~bLtd~b''
     (alts [bw (seqs [alts [seqs [lit_i ''Pvt'', Opt (chr CHR ''.'')], lit_i ''Private''],
                      sp1, lit_i ''Limited'']),
        bw (lit_i ''LLP''), bw (lit_i ''LLPIN''), bw (lit_i ''CIN''), bw (lit_i ''Company''),
        bw (lit_i ''Inc''), bw (lit_i ''Ltd'')])"

subsection \<open>Approvals and infrastructure\<close>

definition RERA_RX :: regex where
  "RERA_RX = rx_compile ''~bRERA~b|~bTSRERA~b|~bK-?RERA~b''
     (alts [bw (lit_i ''RERA''), bw (lit_i ''TSRERA''),
        bw (seqs [lit_i ''K'', Opt (chr CHR ''-''), lit_i ''RERA''])])"

definition HMDA_RX :: regex where
  "HMDA_RX = rx_compile ''~bHyderabad~s+Metropolitan~s+Development~s+Authority~b|~bHMDA~b''
     (alts [bw (phrase [''Hyderabad'', ''Metropolitan'', ''Development'', ''Authority'']),
        bw (lit_i ''HMDA'')])"

definition DC_RX :: regex where
  "DC_RX = rx_compile ''~bDevelopment~s+Permission~b|~bDC~s+Letter~b|~bBuilding~s+Permission~b''
     (alts [bw (phrase [''Development'', ''Permission'']), bw (phrase [''DC'', ''Letter'']),
        bw (phrase [''Building'', ''Permission''])])"

definition BPO_RX :: regex where
  "BPO_RX = rx_compile ''~bBuilding~s+Permit~s+Order~b|~bPermit~s+Order~b''
     (alts [bw (phrase [''Building'', ''Permit'', ''Order'']), bw (phrase [''Permit'', ''Order''])])"

text \<open>Without \<open>re.S\<close> the dot of \<open>FIRE_RX\<close> and \<open>AAI_RX\<close> stops at a newline.\<close>

definition FIRE_RX :: regex where
  "FIRE_RX = rx_compile ''~b(Provisional~s+)?No~s*Objection~s*Certificate~b.*~bFire~b''
     (seqs [WordB, Opt (seqs [lit_i ''Provisional'', sp1]), lit_i ''No'', sp0, lit_i ''Objection'',
        sp0, lit_i ''Certificate'', WordB, Star (\<lambda>c. c \<noteq> CHR 0x0A) 0 True, WordB,
        lit_i ''Fire'', WordB])"

definition PCB_RX :: regex where
  "PCB_RX = rx_compile
     ''~bPollution~s+Control~s+Board~b|~bConsent~s+to~s+(Establish|Operate)~b|~bCTE~b|~bCTO~b''
     (alts [bw (phrase [''Pollution'', ''Control'', ''Board'']),
        bw (seqs [phrase [''Consent'', ''to''], sp1, alts [lit_i ''Establish'', lit_i ''Operate'']]),
        bw (lit_i ''CTE''), bw (lit_i ''CTO'')])"

definition AAI_RX :: regex where
  "AAI_RX = rx_compile
     ''~bAirports?~s+Authority~s+of~s+India~b|~bAAI~b.*~bNOC~b|~bheight~s+clearance~b''
     (alts [bw (seqs [lit_i ''Airport'', Opt (chr_i CHR ''s''), sp1,
                      phrase [''Authority'', ''of'', ''India'']]),
        seqs [WordB, lit_i ''AAI'', WordB, Star (\<lambda>c. c \<noteq> CHR 0x0A) 0 True, WordB,
              lit_i ''NOC'', WordB],
        bw (phrase [''height'', ''clearance''])])"

definition BWSSB_RX :: regex where
  "BWSSB_RX = rx_compile ''~bBWSSB~b|~bWater~s+Supply~b|~bWater~s+Connection~b''
     (alts [bw (lit_i ''BWSSB''), bw (phrase [''Water'', ''Supply'']),
        bw (phrase [''Water'', ''Connection''])])"

definition HMWS_RX :: regex where
  "HMWS_RX = rx_compile ''~bHMWS&SB~b|~bHyderabad~s+Metropolitan~s+Water~b''
     (alts [bw (lit_i ''HMWS&SB''), bw (phrase [''Hyderabad'', ''Metropolitan'', ''Water''])])"

definition BESCOM_RX :: regex where
  "BESCOM_RX = rx_compile ''~bBESCOM~b|~bBangalore~s+Electricity~b''
     (alts [bw (lit_i ''BESCOM''), bw (phrase [''Bangalore'', ''Electricity''])])"

definition BSNL_RX :: regex where
  "BSNL_RX = rx_compile ''~bBharat~s+Sanchar~s+Nigam~s+Limited~b|~bBSNL~b''
     (alts [bw (phrase [''Bharat'', ''Sanchar'', ''Nigam'', ''Limited'']), bw (lit_i ''BSNL'')])"

subsection \<open>Legal and land\<close>

definition EC_RX :: regex where
  "EC_RX = rx_compile ''~bEncumbrance~s+Certificate~b|~bForm~s+1[56]~b''
     (alts [bw (phrase [''Encumbrance'', ''Certificate'']),
        bw (seqs [lit_i ''Form'', sp1, chr CHR ''1'', alts [chr CHR ''5'', chr CHR ''6'']])])"

definition PAHANI_RX :: regex where
  "PAHANI_RX = rx_compile ''~bPahani~b|~b1B~b|~bROR~b|~bAdangal~b''
     (alts [bw (lit_i ''Pahani''), bw (lit_i ''1B''), bw (lit_i ''ROR''), bw (lit_i ''Adangal'')])"

definition PASSBOOK_RX :: regex where
  "PASSBOOK_RX = rx_compile ''~bPassbook~b'' (bw (lit_i ''Passbook''))"

definition DAGPA_RX :: regex where
  "DAGPA_RX = rx_compile ''~bDevelopment~s+Agreement[-~s]*cum~s+GPA~b|~bDAGPA~b''
     (alts [bw (seqs [phrase [''Development'', ''Agreement''],
                      Star (\<lambda>c. c = CHR ''-'' \<or> is_space c) 0 True, phrase [''cum'', ''GPA'']]),
        bw (lit_i ''DAGPA'')])"

definition JDA_RX :: regex where
  "JDA_RX = rx_compile ''~bJoint~s+Development~s+Agreement~b|~bJDA~b''
     (alts [bw (phrase [''Joint'', ''Development'', ''Agreement'']), bw (lit_i ''JDA'')])"

definition GPA_RX :: regex where
  "GPA_RX = rx_compile ''~bGeneral~s+Power~s+of~s+Attorney~b|~bGPA~b''
     (alts [bw (phrase [''General'', ''Power'', ''of'', ''Attorney'']), bw (lit_i ''GPA'')])"

definition NALA_RX :: regex where
  "NALA_RX = rx_compile ''~bNALA~b|~bNon-?Agricultural~s+Land~s+Assessment~b''
     (alts [bw (lit_i ''NALA''),
        bw (seqs [lit_i ''Non'', Opt (chr CHR ''-''),
                  phrase [''Agricultural'', ''Land'', ''Assessment'']])])"

definition LUC_RX :: regex where
  "LUC_RX = rx_compile ''~bLand~s+Use~s+Certificate~b|~bLUC~b''
     (alts [bw (phrase [''Land'', ''Use'', ''Certificate'']), bw (lit_i ''LUC'')])"

definition TDR_RX :: regex where
  "TDR_RX = rx_compile ''~bTransfer~s+of~s+Development~s+Rights~b|~bTDR~b''
     (alts [bw (phrase [''Transfer'', ''of'', ''Development'', ''Rights'']), bw (lit_i ''TDR'')])"

subsection \<open>Bank statement detection\<close>

definition BANK_STMT_RX :: regex where
  "BANK_STMT_RX = rx_compile
     ''~b(Account~s+Statement|Statement~s+of~s+Account|SOA|Account~s+No~.?|A/c~s+No~.?|IFSC)~b''
     (bw (alts [phrase [''Account'', ''Statement''], phrase [''Statement'', ''of'', ''Account''],
        lit_i ''SOA'',
        seqs [phrase [''Account'', ''No''], Opt (chr CHR ''.'')],
        seqs [phrase [''A/c'', ''No''], Opt (chr CHR ''.'')],
        lit_i ''IFSC'']))"

definition CORP_HINTS_RX :: regex where
  "CORP_HINTS_RX = COMPANY_MARKERS_RX"

subsection \<open>The tables\<close>

definition AADHAAR_RX :: regex where
  "AADHAAR_RX = rx_compile ''~bAadhaar~b'' (bw (lit_i ''Aadhaar''))"

definition PARTNERSHIP_DEED_RX :: regex where
  "PARTNERSHIP_DEED_RX = rx_compile ''~bPartnership~s+Deed~b|~bFirm~s+Registration~b''
     (alts [bw (phrase [''Partnership'', ''Deed'']), bw (phrase [''Firm'', ''Registration''])])"

definition COMMENCEMENT_RX :: regex where
  "COMMENCEMENT_RX = rx_compile ''~bCommencement~s+(Certificate|Letter)~b''
     (bw (seqs [lit_i ''Commencement'', sp1, alts [lit_i ''Certificate'', lit_i ''Letter'']]))"

text \<open>
  \<open>TEXT_RULES\<close> and \<open>FILENAME_HINTS\<close> are dictionaries whose keys are distinct; they are
  association lists in the order of the source, which is the order Python iterates in.
  The three patterns written inline in the source's table are named above.
\<close>

definition TEXT_RULES :: "(string \<times> regex list) list" where
  "TEXT_RULES = [
     (''directors_pan_aadhaar'', [PAN_RX, AADHAAR_RX]),
     (''dev_company_gst_pan'', [GSTIN_RX]),
     (''dev_company_tan'', [TAN_RX]),
     (''dev_company_lei'', [LEI_RX]),
     (''dev_company_moa_aoa_incorp'', [MOA_RX, AOA_RX]),
     (''group_company_moa_aoa_incorp'', [MOA_RX, AOA_RX]),
     (''dev_llp_agreement_incorp'', [LLPIN_RX, COI_RX]),
     (''dev_partnership_deed_registration'', [PARTNERSHIP_DEED_RX]),
     (''ts_hmda_dc_letter'', [HMDA_RX, DC_RX]),
     (''ts_building_permit_order'', [BPO_RX]),
     (''ts_provisional_fire_noc'', [FIRE_RX]),
     (''ts_pollution_noc'', [PCB_RX]),
     (''ts_airport_authority'', [AAI_RX]),
     (''ts_rera_certificate'', [RERA_RX]),
     (''ts_permission_water_supply'', [HMWS_RX]),
     (''ka_commencement_letter'', [COMMENCEMENT_RX]),
     (''ka_provisional_fire_noc'', [FIRE_RX]),
     (''ka_pollution_noc'', [PCB_RX]),
     (''ka_airport_authority'', [AAI_RX]),
     (''ka_rera'', [RERA_RX]),
     (''ka_permission_water_supply'', [BWSSB_RX]),
     (''ka_bescom'', [BESCOM_RX]),
     (''ka_bsnl'', [BSNL_RX]),
     (''legal_certified_ec'', [EC_RX]),
     (''legal_pahanies'', [PAHANI_RX]),
     (''legal_passbooks'', [PASSBOOK_RX]),
     (''land_ts_dagpa'', [DAGPA_RX]),
     (''land_ka_jda'', [JDA_RX]),
     (''land_ka_gpa'', [GPA_RX]),
     (''land_ts_nala'', [NALA_RX]),
     (''land_ts_land_use_certificate'', [LUC_RX]),
     (''land_ts_tdr'', [TDR_RX]),
     (''land_ka_tdr'', [TDR_RX])]"

definition FILENAME_HINTS :: "(string \<times> string list) list" where
  "FILENAME_HINTS = [
     (''gst'', [''dev_company_gst_pan'', ''group_company_gst_pan'', ''dev_llp_gst_pan'',
                ''dev_partnership_gst_pan'']),
     (''tan'', [''dev_company_tan'', ''dev_llp_tan'', ''dev_partnership_tan'']),
     (''lei'', [''dev_company_lei'', ''dev_llp_lei'', ''dev_partnership_lei'']),
     (''rera'', [''ts_rera_certificate'', ''ka_rera'']),
     (''hmda'', [''ts_hmda_dc_letter'']),
     (''aai'', [''ts_airport_authority'', ''ka_airport_authority'']),
     (''moa'', [''dev_company_moa_aoa_incorp'', ''group_company_moa_aoa_incorp'']),
     (''aoa'', [''dev_company_moa_aoa_incorp'', ''group_company_moa_aoa_incorp'']),
     (''coi'', [''dev_llp_agreement_incorp'']),
     (''accountstatement'', [''dev_company_bank_stmt'', ''dev_llp_bank_stmt'',
                ''dev_partnership_bank_stmt'', ''directors_bank_stmt_1y'']),
     (''statement'', [''dev_company_bank_stmt'', ''dev_llp_bank_stmt'',
                ''dev_partnership_bank_stmt'', ''directors_bank_stmt_1y''])]"

subsection \<open>Hits\<close>

text \<open>A hit is \<open>(slug, score, why)\<close>. \<open>add_hit\<close> returns the list the source appends to.\<close>

type_synonym hit = "string \<times> rat \<times> string"

definition add_hit :: "hit list \<Rightarrow> string \<Rightarrow> rat \<Rightarrow> string \<Rightarrow> hit list" where
  "add_hit hits slug score why = hits @ [(slug, min (95 / 100) score, why)]"

definition bank_router :: "string \<Rightarrow> string option \<Rightarrow> hit list" where
  "bank_router text state =
     (if search BANK_STMT_RX text = None then []
      else if search CORP_HINTS_RX text \<noteq> None \<or> search GSTIN_RX text \<noteq> None
              \<or> search CIN_RX text \<noteq> None \<or> search LLPIN_RX text \<noteq> None
      then foldl (\<lambda>out s. add_hit out s (9 / 10) ''bank statement + corporate markers'') []
             [''dev_company_bank_stmt'', ''dev_llp_bank_stmt'', ''dev_partnership_bank_stmt'']
      else add_hit [] ''directors_bank_stmt_1y'' (9 / 10) ''bank statement + no corporate markers'')"

text \<open>
  The inner loop of the text rules over the detectors of one slug: the state is
  \<open>(local, reasons)\<close>.
\<close>

definition detector_step :: "string \<Rightarrow> rat \<times> string list \<Rightarrow> regex \<Rightarrow> rat \<times> string list" where
  "detector_step text st r =
     (case st of (local, reasons) \<Rightarrow>
        if search r text \<noteq> None
        then (local + (if local = 0 then 1 / 2 else 1 / 4),
              reasons @ [take 48 (pattern r) @ (if length (pattern r) > 48 then ''...'' else [])])
        else (local, reasons))"

definition detectors_loop :: "regex list \<Rightarrow> string \<Rightarrow> rat \<times> string list" where
  "detectors_loop regs text = foldl (detector_step text) (0, []) regs"

text \<open>The outer loop, over the items of a rule table.\<close>

definition text_rule_step :: "string \<Rightarrow> hit list \<Rightarrow> string \<times> regex list \<Rightarrow> hit list" where
  "text_rule_step text hits item =
     (case item of (slug, regs) \<Rightarrow>
        (case detectors_loop regs text of (local, reasons) \<Rightarrow>
           if local \<ge> 8 / 10 then add_hit hits slug local (join ''; '' reasons) else hits))"

definition text_rules :: "(string \<times> regex list) list \<Rightarrow> string \<Rightarrow> hit list \<Rightarrow> hit list" where
  "text_rules table text hits = foldl (text_rule_step text) hits table"

text \<open>The extension pattern of the filename cleaning, compiled without flags.\<close>

definition EXT_RX :: rx where
  "EXT_RX = seqs [chr CHR ''.'',
     alts [lit ''pdf'', lit ''png'', lit ''jpg'', lit ''jpeg'', lit ''tif'', lit ''tiff'',
           seqs [lit ''doc'', Opt (chr CHR ''x'')]],
     EndA]"

definition tokenmap :: "(string \<times> string) list" where
  "tokenmap = [(''gst'', ''gst''), (''tan'', ''tan''), (''lei'', ''lei''), (''rera'', ''rera''),
     (''hmda'', ''hmda''), (''aai'', ''aai''), (''moa'', ''moa''), (''aoa'', ''aoa''),
     (''coi'', ''coi''), (''accountstatement'', ''accountstatement''),
     (''statement'', ''statement'')]"

definition filename_hint_step :: "string \<Rightarrow> hit list \<Rightarrow> string \<times> string \<Rightarrow> hit list" where
  "filename_hint_step base hits item =
     (case item of (token, key) \<Rightarrow>
        if py_in token base
        then foldl (\<lambda>hs slug. add_hit hs slug (85 / 100) (''filename:'' @ token)) hits
               (case map_of FILENAME_HINTS key of None \<Rightarrow> [] | Some slugs \<Rightarrow> slugs)
        else hits)"

definition filename_hints :: "string \<Rightarrow> hit list \<Rightarrow> hit list" where
  "filename_hints filename hits =
     (let base = lower filename;
          base = re_sub EXT_RX [] base
      in foldl (filename_hint_step base) hits tokenmap)"

definition rules_from_text_and_filename :: "string \<Rightarrow> string \<Rightarrow> string option \<Rightarrow> hit list" where
  "rules_from_text_and_filename text filename state =
     (let hits = text_rules TEXT_RULES text [];
          hits = hits @ bank_router text state
      in filename_hints filename hits)"

section \<open>Categories (source_of_truth.py)\<close>

record category =
  slug :: string
  display :: string
  top_entity :: string
  state_variant :: "string option"
  org_variant :: "string option"
  cat_keywords :: "string list option"
  synonyms :: "string list option"
  prototype :: string

text \<open>\<open>or_empty x\<close> is Python's \<open>x or []\<close>.\<close>

definition or_empty :: "'a list option \<Rightarrow> 'a list" where
  "or_empty x = (case x of None \<Rightarrow> [] | Some xs \<Rightarrow> xs)"

text \<open>
  \<open>names_for_fuzzy\<close> returns the elements of a Python set as a list, in no particular
  order; its only caller takes a maximum over them.
\<close>

definition names_for_fuzzy :: "category \<Rightarrow> string list" where
  "names_for_fuzzy c =
     remdups (map lower [display c, replace (slug c) ''_'' '' ''] @ or_empty (synonyms c))"

section \<open>Storage (db.py)\<close>

text \<open>
  A chunk is \<open>(chunk_id, text, embedding)\<close>; the embedding is only handed to the embedding
  scorer, so its type is left open. The \<open>documents\<close> table has one row per document; the
  tables \<open>chunks_<id>\<close> may be missing, in which case reading them raises. The column
  \<open>updated_at\<close>, which \<open>update_match\<close> sets to the current time, is not modelled.
\<close>

type_synonym 'e chunk = "nat \<times> string \<times> 'e"

record doc_row =
  row_id :: nat
  document_name :: string
  canonical_slug :: "string option"
  row_top_entity :: "string option"
  row_org_variant :: "string option"
  row_state_variant :: "string option"
  confidence :: "rat option"
  row_status :: "string option"

record 'e db =
  documents :: "doc_row list"
  chunk_tables :: "nat \<Rightarrow> 'e chunk list option"

datatype error = MissingTable nat | IndexError

definition get_documents :: "'e db \<Rightarrow> string option \<Rightarrow> nat option \<Rightarrow> doc_row list" where
  "get_documents d status limit =
     (let rows = documents d;
          rows = (case status of
                    None \<Rightarrow> rows
                  | Some s \<Rightarrow> if s = [] then rows else filter (\<lambda>r. row_status r = Some s) rows);
          rows = sort_key row_id rows
      in case limit of None \<Rightarrow> rows | Some n \<Rightarrow> if n = 0 then rows else take n rows)"

definition get_chunks :: "'e db \<Rightarrow> nat \<Rightarrow> nat option \<Rightarrow> error + 'e chunk list" where
  "get_chunks d doc_id limit =
     (case chunk_tables d doc_id of
        None \<Rightarrow> Inl (MissingTable doc_id)
      | Some cs \<Rightarrow>
          Inr (case limit of None \<Rightarrow> sort_key fst cs | Some n \<Rightarrow> take n (sort_key fst cs)))"

definition update_match ::
  "'e db \<Rightarrow> nat \<Rightarrow> string option \<Rightarrow> string option \<Rightarrow> string option \<Rightarrow> string option
     \<Rightarrow> rat option \<Rightarrow> string \<Rightarrow> 'e db" where
  "update_match d doc_id slug_v top_entity_v org_variant_v state_variant_v confidence_v status_v =
     d\<lparr>documents :=
         map (\<lambda>r. if row_id r = doc_id
                   then r\<lparr>canonical_slug := slug_v, row_top_entity := top_entity_v,
                           row_org_variant := org_variant_v, row_state_variant := state_variant_v,
                           confidence := confidence_v, row_status := Some status_v\<rparr>
                   else r)
           (documents d)\<rparr>"

definition filename_counts :: "'e db \<Rightarrow> (string \<rightharpoonup> int)" where
  "filename_counts d =
     (\<lambda>name. let n = length (filter (\<lambda>r. lower (document_name r) = name) (documents d))
              in if n = 0 then None else Some (int n))"

section \<open>Signals (signals.py)\<close>

definition WORD_RX :: rx where
  "WORD_RX = Star is_alnum 1 True"

definition norm01 :: "rat \<Rightarrow> rat \<Rightarrow> rat \<Rightarrow> rat" where
  "norm01 x lo hi = (if hi \<le> lo then 0 else (max lo (min hi x) - lo) / (hi - lo))"

text \<open>\<open>rsplit_last name\<close> is \<open>name.rsplit("/", 1)[-1]\<close>: the text after the last slash.\<close>

definition rsplit_last :: "string \<Rightarrow> string" where
  "rsplit_last name = rev (takeWhile (\<lambda>c. c \<noteq> CHR ''/'') (rev name))"

text \<open>
  The fuzzy metrics of the rapidfuzz library and the embedding score (numpy arithmetic on
  stored vectors) are computed outside the repository; they are parameters of the model.
  \<open>embedding_score chunks c\<close> stands for
  \<open>score_embeddings(doc_vector_mean(chunks, 8), cat_vecs.get(c.slug))\<close>.
\<close>

record 'e externals =
  token_set_ratio :: "string \<Rightarrow> string \<Rightarrow> rat"
  partial_ratio :: "string \<Rightarrow> string \<Rightarrow> rat"
  QRatio :: "string \<Rightarrow> string \<Rightarrow> rat"
  embedding_score :: "'e chunk list \<Rightarrow> category \<Rightarrow> rat"

definition score_filename :: "'e externals \<Rightarrow> string \<Rightarrow> category \<Rightarrow> rat" where
  "score_filename ext file_name cat =
     (let base = lower (rsplit_last file_name);
          base = re_sub EXT_RX [] base;
          best = foldl (\<lambda>best cand.
                    max (max (max best (token_set_ratio ext base cand)) (partial_ratio ext base cand))
                        (QRatio ext base cand))
                   0 (names_for_fuzzy cat)
      in best / 100)"

definition score_keywords :: "'e chunk list \<Rightarrow> category \<Rightarrow> nat \<Rightarrow> rat" where
  "score_keywords chunks cat top_k =
     (let kws = or_empty (cat_keywords cat) @ or_empty (synonyms cat)
      in if kws = [] then 0
         else let text = lower (join '' '' (map (\<lambda>ch. fst (snd ch)) (take top_k chunks)));
                  hits = length (filter (\<lambda>kw. kw \<noteq> [] \<and> py_in (lower kw) text) kws);
                  prop = of_nat hits / of_nat (max 1 (length kws))
              in norm01 prop 0 (6 / 10))"

definition GENERIC_TOKENS :: "string list" where
  "GENERIC_TOKENS = [''scan'', ''scanned'', ''document'', ''doc'', ''file'', ''new'', ''untitled'',
     ''image'', ''img'', ''photo'']"

definition is_generic_filename :: "string \<Rightarrow> bool" where
  "is_generic_filename name =
     (let base = lower (rsplit_last name);
          base = re_sub EXT_RX [] base;
          toks = findall WORD_RX base
      in if toks = [] then True
         else if \<exists>t \<in> set toks. t \<in> set GENERIC_TOKENS then True
         else if length base \<le> 6 then True
         else if (of_nat (length (filter str_isdigit base)) :: rat) / of_nat (max 1 (length base)) > 6 / 10
              then True
         else False)"

section \<open>Fusion (fuse.py)\<close>

text \<open>Every caller passes the weights, so the default value of \<open>w\<close> is left out.\<close>

definition fuse_scores :: "rat \<Rightarrow> rat \<Rightarrow> rat \<Rightarrow> rat \<times> rat \<times> rat \<Rightarrow> rat" where
  "fuse_scores s1 s2 s3 w = (case w of (a, b, c) \<Rightarrow> max 0 (min 1 (a * s1 + b * s2 + c * s3)))"

section \<open>The resolver (resolver.py)\<close>

text \<open>
  \<open>sort_desc key xs\<close> is \<open>xs.sort(key=key, reverse=True)\<close>: descending, and stable (elements
  with equal keys keep their order).
\<close>

fun insort_desc :: "('a \<Rightarrow> 'k::linorder) \<Rightarrow> 'a \<Rightarrow> 'a list \<Rightarrow> 'a list" where
  "insort_desc key x [] = [x]"
| "insort_desc key x (y # ys) = (if key y > key x then y # insort_desc key x ys else x # y # ys)"

definition sort_desc :: "('a \<Rightarrow> 'k::linorder) \<Rightarrow> 'a list \<Rightarrow> 'a list" where
  "sort_desc key xs = foldr (insort_desc key) xs []"

text \<open>
  \<open>py_round x n\<close> is \<open>round(x, n)\<close> on exact values: to the nearest multiple of \<open>10^-n\<close>, a
  tie going to the even one.
\<close>

definition py_round :: "rat \<Rightarrow> nat \<Rightarrow> rat" where
  "py_round x n =
     (let m = 10 ^ n;
          y = x * m;
          f = \<lfloor>y\<rfloor>;
          d = y - of_int f
      in of_int (if d < 1 / 2 then f else if d > 1 / 2 then f + 1 else if even f then f else f + 1) / m)"

text \<open>The text window for the rules: the first 12 chunks, cut once 20000 characters are passed.\<close>

fun window_loop :: "string list \<Rightarrow> string list \<Rightarrow> string list" where
  "window_loop texts [] = texts"
| "window_loop texts (t # ts) =
     (let texts' = texts @ [t]
      in if sum_list (map length texts') > 20000 then texts' else window_loop texts' ts)"

definition full_text :: "'e chunk list \<Rightarrow> string" where
  "full_text chunks = join [CHR 0x0A] (window_loop [] (map (\<lambda>ch. fst (snd ch)) (take 12 chunks)))"

text \<open>\<open>rule_best\<close> is \<open>max(rule_hits, key=lambda x: x[1])\<close>, the first hit of maximal score.\<close>

fun max_by_score :: "hit \<Rightarrow> hit list \<Rightarrow> hit" where
  "max_by_score best [] = best"
| "max_by_score best (h # hs) = max_by_score (if fst (snd h) > fst (snd best) then h else best) hs"

definition rule_best :: "hit list \<Rightarrow> hit option" where
  "rule_best rule_hits = (case rule_hits of [] \<Rightarrow> None | h # hs \<Rightarrow> Some (max_by_score h hs))"

text \<open>Step 2 of \<open>categorize_document\<close>: the dynamic fusion weights.\<close>

definition fusion_weights :: "bool \<Rightarrow> int \<Rightarrow> rat \<times> rat \<times> rat" where
  "fusion_weights generic dup_count =
     (let w_s1 = (if generic \<or> dup_count \<ge> 3 then 0
                  else if dup_count = 2 then 20 / 100
                  else 40 / 100)
      in (w_s1, 30 / 100, 30 / 100))"

text \<open>Step 3: every candidate category scored and fused, then sorted by fused score.\<close>

type_synonym scored = "string \<times> rat \<times> (rat \<times> rat \<times> rat) \<times> category"

definition score_categories ::
  "'e externals \<Rightarrow> string \<Rightarrow> 'e chunk list \<Rightarrow> category list \<Rightarrow> rat \<times> rat \<times> rat \<Rightarrow> scored list" where
  "score_categories ext fname chunks cats weights =
     sort_desc (\<lambda>x. fst (snd x))
       (map (\<lambda>c. let s1 = score_filename ext fname c;
                      s2 = score_keywords chunks c 6;
                      s3 = embedding_score ext chunks c
                  in (slug c, fuse_scores s1 s2 s3 weights, (s1, s2, s3), c))
          cats)"

text \<open>
  Step 4: the rule override. The state is the winning slug, its category, the final score
  and the applied-rule record \<open>(slug, score, reason)\<close>.
\<close>

record decision =
  d_slug :: string
  d_cat :: category
  d_final :: rat
  d_rule :: "(string \<times> rat \<times> string) option"

definition rule_override :: "hit option \<Rightarrow> scored list \<Rightarrow> scored \<Rightarrow> decision" where
  "rule_override best scored_list first =
     (case first of (slug0, final0, parts0, cat0) \<Rightarrow>
        (case best of
           None \<Rightarrow> \<lparr>d_slug = slug0, d_cat = cat0, d_final = final0, d_rule = None\<rparr>
         | Some (r_slug, r_score, reason) \<Rightarrow>
             (case find (\<lambda>x. fst x = r_slug) scored_list of
                Some (slug1, final1, parts1, cat1) \<Rightarrow>
                  \<lparr>d_slug = r_slug, d_cat = cat1, d_final = max final0 r_score,
                   d_rule = Some (r_slug, py_round r_score 3, reason)\<rparr>
              | None \<Rightarrow>
                  \<lparr>d_slug = slug0, d_cat = cat0, d_final = max final0 (r_score * (9 / 10)),
                   d_rule = Some (r_slug, py_round (r_score * (9 / 10)) 3,
                                  reason @ '' (partial)'')\<rparr>)))"

text \<open>Step 5: the thresholds.\<close>

definition status_of :: "rat \<Rightarrow> string" where
  "status_of final_v =
     (if final_v \<ge> 70 / 100 then ''accepted''
      else if final_v \<ge> 60 / 100 then ''needs_review''
      else ''unassigned'')"

record preview =
  rank :: nat
  pv_slug :: string
  pv_score :: rat
  s1_fn :: rat
  s2_kw :: rat
  s3_emb :: rat
  pv_display :: string
  pv_top_entity :: string
  pv_state_variant :: "string option"
  pv_org_variant :: "string option"

record result =
  res_doc_id :: nat
  res_document_name :: string
  best_slug :: string
  best_display :: string
  res_top_entity :: string
  res_state_variant :: "string option"
  res_org_variant :: "string option"
  final :: rat
  s1 :: rat
  s2 :: rat
  s3 :: rat
  status :: string
  topk :: "preview list"
  rule :: "(string \<times> rat \<times> string) option"
  weights :: "rat \<times> rat \<times> rat"
  is_dup_name :: bool
  name_dup_count :: int
  is_generic_name :: bool

definition make_preview :: "nat \<times> scored \<Rightarrow> preview" where
  "make_preview ir =
     (case ir of (i, (slug_v, score_v, (a, b, c), cat)) \<Rightarrow>
        \<lparr>rank = i + 1, pv_slug = slug_v, pv_score = py_round score_v 3,
         s1_fn = py_round a 3, s2_kw = py_round b 3, s3_emb = py_round c 3,
         pv_display = display cat, pv_top_entity = top_entity cat,
         pv_state_variant = state_variant cat, pv_org_variant = org_variant cat\<rparr>)"

text \<open>
  \<open>decide\<close> is \<open>categorize_document\<close> up to the end of step 4: it returns the sorted
  candidates and the decision with the unrounded final score. It raises when the chunk
  table is missing, and with \<open>IndexError\<close> at \<open>scored[0]\<close> when there is no candidate.
\<close>

definition decide ::
  "'e externals \<Rightarrow> 'e db \<Rightarrow> doc_row \<Rightarrow> category list \<Rightarrow> (string \<rightharpoonup> int) \<Rightarrow> string option
     \<Rightarrow> error + (scored list \<times> decision)" where
  "decide ext d doc cats fname_cnts state =
     (let fname = document_name doc;
          fname_l = lower fname
      in case get_chunks d (row_id doc) None of
           Inl e \<Rightarrow> Inl e
         | Inr chunks \<Rightarrow>
             (let rule_hits = rules_from_text_and_filename (full_text chunks) fname state;
                  best = rule_best rule_hits;
                  dup_count = (case fname_cnts fname_l of None \<Rightarrow> 0 | Some n \<Rightarrow> n);
                  generic = is_generic_filename fname;
                  ws = fusion_weights generic dup_count;
                  scored_list = score_categories ext fname chunks cats ws
              in case scored_list of
                   [] \<Rightarrow> Inl IndexError
                 | first # _ \<Rightarrow> Inr (scored_list, rule_override best scored_list first)))"

definition categorize_document ::
  "'e externals \<Rightarrow> 'e db \<Rightarrow> doc_row \<Rightarrow> category list \<Rightarrow> (string \<rightharpoonup> int) \<Rightarrow> string option
     \<Rightarrow> nat \<Rightarrow> error + result" where
  "categorize_document ext d doc cats fname_cnts state topk_show =
     (case decide ext d doc cats fname_cnts state of
        Inl e \<Rightarrow> Inl e
      | Inr (scored_list, dec) \<Rightarrow>
          (let fname = document_name doc;
               dup_count = (case fname_cnts (lower fname) of None \<Rightarrow> 0 | Some n \<Rightarrow> n);
               ws = fusion_weights (is_generic_filename fname) dup_count;
               parts = (case scored_list of [] \<Rightarrow> (0, 0, 0) | first # _ \<Rightarrow> fst (snd (snd first)));
               cat = d_cat dec
           in Inr \<lparr>res_doc_id = row_id doc, res_document_name = fname,
                   best_slug = d_slug dec, best_display = display cat,
                   res_top_entity = top_entity cat, res_state_variant = state_variant cat,
                   res_org_variant = org_variant cat,
                   final = py_round (d_final dec) 3,
                   s1 = py_round (fst parts) 3, s2 = py_round (fst (snd parts)) 3,
                   s3 = py_round (snd (snd parts)) 3,
                   status = status_of (d_final dec),
                   topk = map make_preview (enumerate 0 (take topk_show scored_list)),
                   rule = d_rule dec,
                   weights = (py_round (fst ws) 2, py_round (fst (snd ws)) 2,
                              py_round (snd (snd ws)) 2),
                   is_dup_name = (dup_count \<ge> 2), name_dup_count = dup_count,
                   is_generic_name = is_generic_filename fname\<rparr>))"

section \<open>Entity roles (entity_role_infer.py)\<close>

subsection \<open>Name extraction and normalization\<close>

text \<open>
  \<open>NAME_RX\<close> is compiled with \<open>re.I\<close>; it is a prefix followed by its only group, written
  here as the two parts \<open>NAME_PREFIX\<close> and \<open>NAME_GROUP\<close>.
\<close>

definition NAME_PREFIX :: rx where
  "NAME_PREFIX = seqs [
     alts [lit_i ''Name'', lit_i ''Legal Name'',
           seqs [lit_i ''Name of '', alts [lit_i ''Business'', lit_i ''Company'']],
           lit_i ''Account Name''],
     sp0, Atom (\<lambda>c. c = CHR '':'' \<or> c = CHR ''-''), sp0]"

definition NAME_GROUP :: rx where
  "NAME_GROUP = Star (\<lambda>c. is_alnum c \<or> c \<in> set ''&.,() /-'') 1 True"

definition norm_name :: "string \<Rightarrow> string" where
  "norm_name s0 =
     (let s = upper s0;
          s = foldl (\<lambda>s token. replace s token [])  s
                ['' PRIVATE LIMITED'', '' PVT LTD'', '' LTD'', '' LIMITED'', '' LLP'',
                 '' PARTNERSHIP FIRM'', '' FIRM'', '' COMPANY''];
          s = re_sub (Star (\<lambda>c. \<not> (is_upper c \<or> is_digit c \<or> c = CHR ''&'' \<or> c = CHR '' '')) 1 True)
                '' '' s;
          s = strip (re_sub (Star is_space 1 True) '' '' s)
      in s)"

subsection \<open>Identifiers\<close>

text \<open>The facts of a document are a dictionary from fact names to strings.\<close>

type_synonym facts = "string \<rightharpoonup> string"

definition extract_facts :: "string \<Rightarrow> facts" where
  "extract_facts text =
     (let facts = Map.empty;
          facts = (case search PAN_RX text of None \<Rightarrow> facts | Some m \<Rightarrow> facts(''pan'' \<mapsto> m));
          facts = (case search GSTIN_RX text of None \<Rightarrow> facts | Some m \<Rightarrow> facts(''gstin'' \<mapsto> m));
          facts = (case search CIN_RX text of None \<Rightarrow> facts | Some m \<Rightarrow> facts(''cin'' \<mapsto> m));
          facts = (case search LLPIN_RX text of None \<Rightarrow> facts | Some m \<Rightarrow> facts(''llpin'' \<mapsto> m));
          facts = (case find_group NAME_PREFIX NAME_GROUP None text of
                     None \<Rightarrow> facts
                   | Some g \<Rightarrow> facts(''name'' \<mapsto> strip g));
          facts = (case facts ''gstin'' of
                     None \<Rightarrow> facts
                   | Some g \<Rightarrow>
                       if facts ''pan'' = None \<and> length g \<ge> 12
                       then facts(''pan'' \<mapsto> take 10 (drop 2 g))
                       else facts);
          facts = (case facts ''name'' of
                     None \<Rightarrow> facts
                   | Some n \<Rightarrow> facts(''name_key'' \<mapsto> norm_name n))
      in facts)"

fun first_key :: "facts \<Rightarrow> string list \<Rightarrow> string option" where
  "first_key f [] = None"
| "first_key f (k # ks) =
     (case f k of
        None \<Rightarrow> first_key f ks
      | Some v \<Rightarrow> if v \<noteq> [] then Some (k @ '':'' @ v) else first_key f ks)"

definition entity_key :: "facts \<Rightarrow> string option" where
  "entity_key f = first_key f [''pan'', ''gstin'', ''llpin'', ''cin'', ''name_key'']"

subsection \<open>Features and scores\<close>

definition DEV_STRONG :: "string list" where
  "DEV_STRONG = [''tan'', ''msme'', ''lei'', ''sanction_soa'', ''cibil'', ''bank_stmt_entity'']"

definition DEV_COMMON :: "string list" where
  "DEV_COMMON = [''gst_pan'', ''financials_3y'', ''itrs_3y'', ''coi_moa_aoa'', ''partnership_deed'',
     ''llp_agreement'']"

definition feature_from_slug :: "string \<Rightarrow> string option" where
  "feature_from_slug slug_v =
     (let s = lower slug_v
      in if py_in ''tan'' s then Some ''tan''
         else if py_in ''msme'' s then Some ''msme''
         else if py_in ''lei'' s then Some ''lei''
         else if py_in ''sanction'' s \<or> py_in ''soa'' s then Some ''sanction_soa''
         else if py_in ''cibil'' s then Some ''cibil''
         else if py_in ''bank_stmt'' s \<and> \<not> py_in ''directors'' s then Some ''bank_stmt_entity''
         else if py_in ''gst_pan'' s then Some ''gst_pan''
         else if py_in ''financial'' s then Some ''financials_3y''
         else if py_in ''itrs'' s then Some ''itrs_3y''
         else if py_in ''moa_aoa'' s \<or> py_in ''incorp'' s then Some ''coi_moa_aoa''
         else if py_in ''partnership_deed'' s then Some ''partnership_deed''
         else if py_in ''llp_agreement'' s then Some ''llp_agreement''
         else None)"

definition org_variant_from_slugs :: "string list \<Rightarrow> string" where
  "org_variant_from_slugs slugs =
     (let s = join '' '' slugs
      in if py_in ''llp_agreement'' s \<or> py_in '' llp '' s then ''llp''
         else if py_in ''partnership_deed'' s \<or> py_in ''partnership'' s then ''partnership''
         else if py_in ''moa_aoa'' s \<or> py_in ''incorp'' s \<or> py_in ''coi'' s then ''company''
         else ''company'')"

text \<open>A \<open>Counter\<close> is an association list from features to counts, in insertion order.\<close>

type_synonym counter = "(string \<times> int) list"

fun counter_incr :: "counter \<Rightarrow> string \<Rightarrow> counter" where
  "counter_incr [] f = [(f, 1)]"
| "counter_incr ((g, c) # rest) f = (if g = f then (g, c + 1) # rest else (g, c) # counter_incr rest f)"

definition score_role :: "counter \<Rightarrow> int \<times> int" where
  "score_role features =
     (let dev = foldl (\<lambda>dev fc. case fc of (f, c) \<Rightarrow>
                         if f \<in> set DEV_STRONG then dev + 2 * c
                         else if f \<in> set DEV_COMMON then dev + 1 * c
                         else dev)
                  0 features;
          grp = sum_list (map snd (filter (\<lambda>fc. fst fc \<in> set DEV_COMMON) features))
      in (dev, grp))"

subsection \<open>Clustering and role assignment\<close>

record cluster =
  docs :: "doc_row list"
  slugs :: "string list"
  features :: counter
  cluster_facts :: facts

type_synonym doc_info = "doc_row \<times> string option \<times> facts \<times> string"

text \<open>The first loop of \<open>run\<close>: a text window of three chunks per document.\<close>

fun collect_doc_info :: "'e db \<Rightarrow> doc_row list \<Rightarrow> error + doc_info list" where
  "collect_doc_info d [] = Inr []"
| "collect_doc_info d (row # rows) =
     (case get_chunks d (row_id row) None of
        Inl e \<Rightarrow> Inl e
      | Inr cs \<Rightarrow>
          (let chunks = take 3 cs;
               text = join [CHR 0x0A] (map (\<lambda>ch. fst (snd ch)) chunks);
               facts = extract_facts text;
               key = entity_key facts;
               slug_v = lower (case canonical_slug row of None \<Rightarrow> [] | Some s \<Rightarrow> s)
           in case collect_doc_info d rows of
                Inl e \<Rightarrow> Inl e
              | Inr infos \<Rightarrow> Inr ((row, key, facts, slug_v) # infos)))"

text \<open>
  The clusters are a dictionary from entity keys to clusters, in insertion order.
  \<open>cluster_add\<close> is one round of the second loop: \<open>setdefault\<close>, then the three updates.
\<close>

definition cluster_update :: "doc_row \<Rightarrow> string \<Rightarrow> cluster \<Rightarrow> cluster" where
  "cluster_update row slug_v c =
     c\<lparr>docs := docs c @ [row], slugs := slugs c @ [slug_v],
       features := (case feature_from_slug slug_v of
                      None \<Rightarrow> features c
                    | Some f \<Rightarrow> counter_incr (features c) f)\<rparr>"

fun setdefault_update ::
  "(string \<times> cluster) list \<Rightarrow> string \<Rightarrow> cluster \<Rightarrow> (cluster \<Rightarrow> cluster) \<Rightarrow> (string \<times> cluster) list" where
  "setdefault_update [] k new upd = [(k, upd new)]"
| "setdefault_update ((k', c) # rest) k new upd =
     (if k' = k then (k', upd c) # rest else (k', c) # setdefault_update rest k new upd)"

definition cluster_add :: "(string \<times> cluster) list \<Rightarrow> doc_info \<Rightarrow> (string \<times> cluster) list" where
  "cluster_add clusters info =
     (case info of (row, key, facts, slug_v) \<Rightarrow>
        (case key of
           None \<Rightarrow> clusters
         | Some k \<Rightarrow>
             setdefault_update clusters k
               \<lparr>docs = [], slugs = [], features = [], cluster_facts = facts\<rparr>
               (cluster_update row slug_v)))"

definition build_clusters :: "doc_info list \<Rightarrow> (string \<times> cluster) list" where
  "build_clusters infos = foldl cluster_add [] infos"

text \<open>The scored clusters \<open>(key, dev_score, group_score, variant, c)\<close>, sorted.\<close>

type_synonym scored_cluster = "string \<times> int \<times> int \<times> string \<times> cluster"

definition score_cluster :: "string \<times> cluster \<Rightarrow> scored_cluster" where
  "score_cluster kc =
     (case kc of (key, c) \<Rightarrow>
        (let variant = org_variant_from_slugs (slugs c);
             ds = score_role (features c)
         in (key, fst ds, snd ds, variant, c)))"

definition sort_scored :: "scored_cluster list \<Rightarrow> scored_cluster list" where
  "sort_scored xs = sort_desc (\<lambda>x. (fst (snd x), fst (snd (snd x)))) xs"

definition role_of :: "scored_cluster list \<Rightarrow> string \<Rightarrow> string" where
  "role_of scored_list key =
     (let dev_key = fst (hd scored_list);
          grp_key = (if length scored_list > 1 then fst (scored_list ! 1) else dev_key)
      in if key = dev_key then ''developer_entity''
         else if key = grp_key then ''group_entity''
         else ''other_entity'')"

text \<open>
  An invocation of \<open>update_match\<close>, with its arguments:
  \<open>(doc_id, slug, top_entity, org_variant, state_variant, confidence, status)\<close>.
\<close>

type_synonym update_call =
  "nat \<times> string option \<times> string option \<times> string option \<times> string option \<times> rat option \<times> string"

definition perform :: "'e db \<Rightarrow> update_call \<Rightarrow> 'e db" where
  "perform d call =
     (case call of (doc_id, slug_v, top_v, org_v, state_v, conf_v, status_v) \<Rightarrow>
        update_match d doc_id slug_v top_v org_v state_v conf_v status_v)"

definition write_back_calls :: "scored_cluster list \<Rightarrow> scored_cluster \<Rightarrow> update_call list" where
  "write_back_calls scored_list sc =
     (case sc of (key, dev_score, group_score, variant, c) \<Rightarrow>
        map (\<lambda>row. (row_id row, canonical_slug row, Some (role_of scored_list key), Some variant,
                    row_state_variant row, confidence row,
                    (case row_status row of
                       None \<Rightarrow> ''unassigned''
                     | Some s \<Rightarrow> if s = [] then ''unassigned'' else s)))
          (docs c))"

text \<open>
  What \<open>run\<close> prints: the message that there is nothing to assign, or one line per
  cluster, kept as the values the line is formatted from.
\<close>

datatype report =
    NothingToAssign
  | Assigned "(string \<times> string \<times> string \<times> counter \<times> int \<times> int) list"

text \<open>
  \<open>run state apply d\<close> returns the store after the run, the invocations of \<open>update_match\<close>
  it made, in order, and what it printed; it raises when a chunk table is missing. The
  list \<open>scored[0]\<close> is read only when there is a cluster.
\<close>

definition run :: "string \<Rightarrow> bool \<Rightarrow> 'e db \<Rightarrow> error + ('e db \<times> update_call list \<times> report)" where
  "run state apply d =
     (case collect_doc_info d (get_documents d None None) of
        Inl e \<Rightarrow> Inl e
      | Inr infos \<Rightarrow>
          (let clusters = build_clusters infos
           in if clusters = [] then Inr (d, [], NothingToAssign)
              else let scored_list = sort_scored (map score_cluster clusters);
                       calls = concat (map (write_back_calls scored_list) scored_list)
                   in Inr (foldl perform d calls, calls,
                           Assigned (map (\<lambda>sc. case sc of (key, dev_score, group_score, variant, c) \<Rightarrow>
                                       (role_of scored_list key, key, variant, features c,
                                        dev_score, group_score))
                                     scored_list))))"

section \<open>Vocabulary of the properties\<close>

text \<open>
  The accumulation rule in the words of the specification: nothing before the first
  matching detector, 0.5 for the first one, 0.25 more for each later one.
\<close>

fun local_after :: "nat \<Rightarrow> rat" where
  "local_after 0 = 0"
| "local_after (Suc n) = 1 / 2 + of_nat n / 4"

definition matching :: "regex list \<Rightarrow> string \<Rightarrow> regex list" where
  "matching regs text = filter (\<lambda>r. search r text \<noteq> None) regs"

text \<open>
  The duplicate count of a document's lower-cased name, 0 when the name is not counted, and
  the filename weight in the words of the specification.
\<close>

definition dup_count_of :: "(string \<rightharpoonup> int) \<Rightarrow> doc_row \<Rightarrow> int" where
  "dup_count_of fname_cnts doc = (case fname_cnts (lower (document_name doc)) of None \<Rightarrow> 0 | Some n \<Rightarrow> n)"

definition spec_filename_weight :: "bool \<Rightarrow> int \<Rightarrow> rat" where
  "spec_filename_weight generic dup = (if generic \<or> dup \<ge> 3 then 0 else if dup = 2 then 20 / 100 else 40 / 100)"

text \<open>
  Example data. The stand-ins for the external scorers give 100 to equal strings and 0 to
  others, and no embedding score. \<open>ex_gst\<close> is the category of the GST rule, \<open>ex_misc\<close> and
  \<open>ex_layout\<close> are categories whose display names are cleaned filenames of example documents.
\<close>

definition ex_ext :: "unit externals" where
  "ex_ext = \<lparr>token_set_ratio = (\<lambda>a b. if a = b then 100 else 0),
     partial_ratio = (\<lambda>a b. if a = b then 100 else 0),
     QRatio = (\<lambda>a b. if a = b then 100 else 0),
     embedding_score = (\<lambda>chunks c. 0)\<rparr>"

definition ex_gst :: category where
  "ex_gst = \<lparr>slug = ''dev_company_gst_pan'', display = ''GST Registration and PAN'',
     top_entity = ''developer_entity'', state_variant = None, org_variant = Some ''company'',
     cat_keywords = Some [''gstin''], synonyms = None, prototype = []\<rparr>"

definition ex_misc :: category where
  "ex_misc = \<lparr>slug = ''misc_certificate'', display = ''gst_certificate'',
     top_entity = ''developer_entity'', state_variant = None, org_variant = None,
     cat_keywords = None, synonyms = None, prototype = []\<rparr>"

definition ex_row :: "nat \<Rightarrow> string \<Rightarrow> string option \<Rightarrow> doc_row" where
  "ex_row i name sl = \<lparr>row_id = i, document_name = name, canonical_slug = sl,
     row_top_entity = None, row_org_variant = None, row_state_variant = None,
     confidence = None, row_status = None\<rparr>"

definition ex_layout :: category where
  "ex_layout = \<lparr>slug = ''layout_plan'', display = ''layout_plan'',
     top_entity = ''project_land_documents'', state_variant = Some ''TS'', org_variant = None,
     cat_keywords = Some [''plain'', ''survey''], synonyms = None, prototype = []\<rparr>"

definition ex_db :: "unit db" where
  "ex_db = \<lparr>documents = [ex_row 1 ''GST_Certificate.pdf'' None, ex_row 2 ''rera_approval.pdf'' None,
                          ex_row 3 ''Site_Plan_A.pdf'' None, ex_row 4 ''site_plan_a.PDF'' None,
                          ex_row 5 ''Layout_Plan.pdf'' None, ex_row 6 ''registration_cert.pdf'' None],
     chunk_tables = (\<lambda>i. if i = 1 \<or> i = 6 then Some [(1, ''GSTIN: 27ABCDE1234F1Z5'', ())]
                          else if i \<le> 5 then Some [(1, ''plain text'', ())]
                          else None)\<rparr>"

text \<open>The least number of characters a match of a pattern covers.\<close>

fun min_width :: "rx \<Rightarrow> nat" where
  "min_width Eps = 0"
| "min_width (Atom p) = 1"
| "min_width (Seq r1 r2) = min_width r1 + min_width r2"
| "min_width (Alt r1 r2) = min (min_width r1) (min_width r2)"
| "min_width (Opt r) = 0"
| "min_width (Star p m greedy) = m"
| "min_width WordB = 0"
| "min_width EndA = 0"

text \<open>A fact that is present and not empty, and the five fact names in priority order.\<close>

definition has_fact :: "facts \<Rightarrow> string \<Rightarrow> bool" where
  "has_fact f k = (case f k of None \<Rightarrow> False | Some v \<Rightarrow> v \<noteq> [])"

definition KEY_ORDER :: "string list" where
  "KEY_ORDER = [''pan'', ''gstin'', ''llpin'', ''cin'', ''name_key'']"

text \<open>The role of the cluster at a position of the ranking, in the words of the specification.\<close>

definition role_at :: "nat \<Rightarrow> string" where
  "role_at i = (if i = 0 then ''developer_entity'' else if i = 1 then ''group_entity'' else ''other_entity'')"

text \<open>The ranking of the clusters of a list of documents.\<close>

definition ranking :: "doc_info list \<Rightarrow> scored_cluster list" where
  "ranking infos = sort_scored (map score_cluster (build_clusters infos))"

text \<open>The developer score and the group score of a line of the report, as a pair.\<close>

definition report_scores :: "string \<times> string \<times> string \<times> counter \<times> int \<times> int \<Rightarrow> int \<times> int" where
  "report_scores line = (case line of (role, key, variant, fs, dev, grp) \<Rightarrow> (dev, grp))"

text \<open>
  A second example store: three entities, named by their PANs, and a document without
  any identifier. The rows are stored out of order.
\<close>

definition ex_db2 :: "unit db" where
  "ex_db2 = \<lparr>documents = [ex_row 5 ''e.pdf'' None,
                           ex_row 3 ''c.pdf'' (Some ''dev_company_tan''),
                           ex_row 1 ''a.pdf'' (Some ''misc_certificate''),
                           ex_row 4 ''d.pdf'' (Some ''dev_company_gst_pan''),
                           ex_row 2 ''b.pdf'' (Some ''dev_company_gst_pan'')],
     chunk_tables = (\<lambda>i. if i = 1 then Some [(1, ''PAN KLMNO4321P'', ())]
                          else if i = 2 then Some [(1, ''PAN PQRST5678U'', ())]
                          else if i = 3 \<or> i = 4 then Some [(1, ''PAN ABCDE1234F'', ())]
                          else if i = 5 then Some [(1, ''no identifier'', ())]
                          else None)\<rparr>"

text \<open>A cluster without documents, for examples of the ranking alone.\<close>

definition ex_cluster :: cluster where
  "ex_cluster = \<lparr>docs = [], slugs = [], features = [], cluster_facts = Map.empty\<rparr>"

text \<open>Three clusters with developer scores 1, 4 and 10, in the order they were formed.\<close>

definition ex_three :: "scored_cluster list" where
  "ex_three = [(''k3'', 1, 1, ''llp'', ex_cluster), (''k2'', 4, 0, ''company'', ex_cluster),
               (''k1'', 10, 2, ''company'', ex_cluster)]"

section \<open>Properties of the rule engine\<close>

lemma local_after_zero: "(local_after j = 0) = (j = 0)"
proof (cases j)
  case 0 then show ?thesis by simp
next
  case (Suc n)
  have "(0::rat) \<le> of_nat n / 4" by simp
  then have "1 / 2 + of_nat n / 4 > (0::rat)" by linarith
  with Suc show ?thesis by simp
qed

lemma local_after_Suc: "local_after j + (if local_after j = 0 then 1 / 2 else 1 / 4) = local_after (Suc j)"
  by (cases j) (simp_all add: local_after_zero field_simps)

lemma detectors_fold:
  "fst (foldl (detector_step text) (local_after j, rs) regs) = local_after (j + length (matching regs text))"
proof (induction regs arbitrary: j rs)
  case Nil
  show ?case by (simp add: matching_def)
next
  case (Cons r regs)
  show ?case
  proof (cases "search r text = None")
    case True
    then have "detector_step text (local_after j, rs) r = (local_after j, rs)"
      by (simp add: detector_step_def)
    with True Cons.IH [of j rs] show ?thesis by (simp add: matching_def)
  next
    case False
    then obtain rs' where "detector_step text (local_after j, rs) r = (local_after (Suc j), rs')"
      using local_after_Suc [of j] by (simp add: detector_step_def del: local_after.simps)
    with False Cons.IH [of "Suc j" rs'] show ?thesis by (simp add: matching_def)
  qed
qed

lemma detectors_loop_local:
  "fst (detectors_loop regs text) = local_after (length (matching regs text))"
  using detectors_fold [of "text" 0 "[]" regs] by (simp add: detectors_loop_def)

lemma local_after_mono: "i \<le> j \<Longrightarrow> local_after i \<le> local_after j"
  by (cases i; cases j) (simp_all add: field_simps)

lemma short_list_no_hit:
  assumes "length regs \<le> 2"
  shows "fst (detectors_loop regs text) \<le> 3 / 4"
proof -
  have "length (matching regs text) \<le> length regs"
    unfolding matching_def by (rule length_filter_le)
  with assms have "length (matching regs text) \<le> 2" by linarith
  then have "local_after (length (matching regs text)) \<le> local_after 2"
    by (rule local_after_mono)
  also have "local_after 2 = 3 / 4" by (simp add: numeral_2_eq_2)
  finally show ?thesis by (simp only: detectors_loop_local)
qed

lemma text_rules_short:
  "\<forall>item \<in> set table. length (snd item) \<le> 2 \<Longrightarrow> text_rules table text hits = hits"
proof (induction table arbitrary: hits)
  case Nil
  show ?case by (simp add: text_rules_def)
next
  case (Cons item table)
  obtain sl regs where item: "item = (sl, regs)" by (cases item)
  with Cons.prems have "length regs \<le> 2" by simp
  then have "fst (detectors_loop regs text) \<le> 3 / 4" by (rule short_list_no_hit)
  then have "text_rule_step text hits item = hits"
    by (auto simp: text_rule_step_def item split: prod.splits)
  moreover have "text_rules table text hits = hits" using Cons by simp
  ultimately show ?case by (simp add: text_rules_def)
qed

lemma TEXT_RULES_short: "\<forall>item \<in> set TEXT_RULES. length (snd item) \<le> 2"
  by (simp add: TEXT_RULES_def)

lemma filename_slugs_append:
  "foldl (\<lambda>hs sl. add_hit hs sl sc why) hits sls = hits @ map (\<lambda>sl. (sl, min (95 / 100) sc, why)) sls"
  by (induction sls arbitrary: hits) (simp_all add: add_hit_def)

lemma filename_hint_step_append:
  "filename_hint_step base hits item = hits @ filename_hint_step base [] item"
  by (cases item) (simp add: filename_hint_step_def filename_slugs_append)

lemma filename_fold_append:
  "foldl (filename_hint_step base) hits items = hits @ foldl (filename_hint_step base) [] items"
proof (induction items arbitrary: hits)
  case Nil show ?case by simp
next
  case (Cons item items)
  have "foldl (filename_hint_step base) hits (item # items)
      = foldl (filename_hint_step base) (hits @ filename_hint_step base [] item) items"
    using filename_hint_step_append [of base hits item] by simp
  also have "\<dots> = (hits @ filename_hint_step base [] item) @ foldl (filename_hint_step base) [] items"
    by (rule Cons.IH)
  also have "\<dots> = hits @ foldl (filename_hint_step base) (filename_hint_step base [] item) items"
    using Cons.IH [of "filename_hint_step base [] item"] by simp
  finally show ?case by simp
qed

lemma filename_hints_append: "filename_hints filename hits = hits @ filename_hints filename []"
  unfolding filename_hints_def Let_def by (rule filename_fold_append)

lemma filename_step_scores:
  assumes "h \<in> set (filename_hint_step base [] item)"
  shows "fst (snd h) = 85 / 100"
proof -
  obtain token key where item: "item = (token, key)" by (cases item)
  from assms show ?thesis
    unfolding item filename_hint_step_def filename_slugs_append
    by (auto split: if_splits)
qed

lemma filename_fold_scores:
  "h \<in> set (foldl (filename_hint_step base) [] items) \<Longrightarrow> fst (snd h) = 85 / 100"
proof (induction items rule: rev_induct)
  case Nil then show ?case by simp
next
  case (snoc item items)
  have "foldl (filename_hint_step base) [] (items @ [item])
      = filename_hint_step base (foldl (filename_hint_step base) [] items) item"
    by simp
  also have "\<dots> = foldl (filename_hint_step base) [] items @ filename_hint_step base [] item"
    by (rule filename_hint_step_append)
  finally have "h \<in> set (foldl (filename_hint_step base) [] items)
      \<or> h \<in> set (filename_hint_step base [] item)"
    using snoc.prems by simp
  then show ?case
  proof
    assume "h \<in> set (foldl (filename_hint_step base) [] items)"
    then show ?thesis by (rule snoc.IH)
  next
    assume "h \<in> set (filename_hint_step base [] item)"
    then show ?thesis by (rule filename_step_scores)
  qed
qed

lemma filename_hints_scores: "h \<in> set (filename_hints filename []) \<Longrightarrow> fst (snd h) = 85 / 100"
  unfolding filename_hints_def Let_def by (rule filename_fold_scores)

lemma bank_router_scores: "h \<in> set (bank_router text state) \<Longrightarrow> fst (snd h) = 9 / 10"
  by (auto simp: bank_router_def add_hit_def split: if_splits)

lemma add_hit_capped: "h \<in> set (add_hit hits sl sc why) \<Longrightarrow> h \<in> set hits \<or> fst (snd h) \<le> 95 / 100"
  by (auto simp: add_hit_def)

lemma text_rule_step_capped:
  assumes "\<forall>h \<in> set hits. fst (snd h) \<le> 95 / 100"
  shows "\<forall>h \<in> set (text_rule_step text hits item). fst (snd h) \<le> 95 / 100"
proof
  fix h
  assume h: "h \<in> set (text_rule_step text hits item)"
  obtain sl regs where item: "item = (sl, regs)" by (cases item)
  obtain l rs where loop: "detectors_loop regs text = (l, rs)" by (cases "detectors_loop regs text")
  from h have "h \<in> set hits \<or> h \<in> set (add_hit hits sl l (join ''; '' rs))"
    by (simp add: text_rule_step_def item loop split: if_splits)
  then have "h \<in> set hits \<or> fst (snd h) \<le> 95 / 100"
    using add_hit_capped by blast
  with assms show "fst (snd h) \<le> 95 / 100" by blast
qed

lemma text_rules_capped:
  "\<forall>h \<in> set hits. fst (snd h) \<le> 95 / 100 \<Longrightarrow>
   \<forall>h \<in> set (text_rules table text hits). fst (snd h) \<le> 95 / 100"
proof (induction table arbitrary: hits)
  case Nil
  then show ?case by (simp add: text_rules_def)
next
  case (Cons item table)
  have "\<forall>h \<in> set (text_rule_step text hits item). fst (snd h) \<le> 95 / 100"
    using Cons.prems by (rule text_rule_step_capped)
  then have "\<forall>h \<in> set (text_rules table text (text_rule_step text hits item)). fst (snd h) \<le> 95 / 100"
    by (rule Cons.IH)
  then show ?case by (simp add: text_rules_def)
qed

lemma engine_split:
  "rules_from_text_and_filename text filename state
     = text_rules TEXT_RULES text [] @ bank_router text state @ filename_hints filename []"
  using filename_hints_append [of filename "text_rules TEXT_RULES text [] @ bank_router text state"]
  by (simp add: rules_from_text_and_filename_def)

lemma engine_capped:
  assumes "h \<in> set (rules_from_text_and_filename text filename state)"
  shows "fst (snd h) \<le> 95 / 100"
proof -
  from assms have "h \<in> set (text_rules TEXT_RULES text []) \<or> h \<in> set (bank_router text state)
      \<or> h \<in> set (filename_hints filename [])"
    by (simp add: engine_split)
  then show ?thesis
  proof (elim disjE)
    assume "h \<in> set (text_rules TEXT_RULES text [])"
    then show ?thesis using text_rules_capped [of "[]" TEXT_RULES "text"] by simp
  next
    assume "h \<in> set (bank_router text state)"
    then have "fst (snd h) = 9 / 10" by (rule bank_router_scores)
    then show ?thesis by simp
  next
    assume "h \<in> set (filename_hints filename [])"
    then have "fst (snd h) = 85 / 100" by (rule filename_hints_scores)
    then show ?thesis by simp
  qed
qed

lemma local_after_closed:
  "local_after k = (if k = 0 then 0 else 1 / 2 + 1 / 4 * of_nat (k - 1))"
  by (cases k) simp_all

lemma local_after_threshold: "(local_after k \<ge> 8 / 10) = (k \<ge> 3)"
proof (cases "k \<ge> 3")
  case True
  then have "local_after 3 \<le> local_after k" by (rule local_after_mono)
  moreover have "local_after 3 = 1" by (simp add: numeral_3_eq_3)
  ultimately show ?thesis using True by simp
next
  case False
  then have "k \<le> 2" by simp
  then have "local_after k \<le> local_after 2" by (rule local_after_mono)
  moreover have "local_after 2 = 3 / 4" by (simp add: numeral_2_eq_2)
  ultimately show ?thesis using False by simp
qed

text \<open>
  C4. For the detectors of one slug, with \<open>k\<close> of them matching the text, the local score
  is 0 when \<open>k = 0\<close> and \<open>0.5 + 0.25 (k - 1)\<close> otherwise: exactly 0.75 for two matches and 1.0
  for three. The slug gets a hit exactly when the local score is at least 0.8, that is from
  three matches on, and the hit carries the local score capped at 0.95. Every hit of a
  rule table, and every hit the rule engine returns, has a score of at most 0.95.
\<close>

theorem text_rule_accumulation:
  "fst (detectors_loop regs text)
     = (if length (matching regs text) = 0 then 0
        else 1 / 2 + 1 / 4 * of_nat (length (matching regs text) - 1))
   \<and> (length (matching regs text) = 2 \<longrightarrow> fst (detectors_loop regs text) = 3 / 4)
   \<and> (length (matching regs text) = 3 \<longrightarrow> fst (detectors_loop regs text) = 1)
   \<and> ((fst (detectors_loop regs text) \<ge> 8 / 10) = (length (matching regs text) \<ge> 3))
   \<and> text_rule_step text hits (sl, regs)
       = (if fst (detectors_loop regs text) \<ge> 8 / 10
          then hits @ [(sl, min (95 / 100) (fst (detectors_loop regs text)),
                        join ''; '' (snd (detectors_loop regs text)))]
          else hits)
   \<and> (\<forall>h \<in> set (text_rules table text []). fst (snd h) \<le> 95 / 100)
   \<and> (\<forall>h \<in> set (rules_from_text_and_filename text filename state). fst (snd h) \<le> 95 / 100)"
proof -
  let ?k = "length (matching regs text)"
  have loc: "fst (detectors_loop regs text) = local_after ?k" by (rule detectors_loop_local)
  have a: "fst (detectors_loop regs text) = (if ?k = 0 then 0 else 1 / 2 + 1 / 4 * of_nat (?k - 1))"
    unfolding loc by (rule local_after_closed)
  have b: "?k = 2 \<longrightarrow> fst (detectors_loop regs text) = 3 / 4"
    unfolding loc by (simp add: numeral_2_eq_2)
  have c: "?k = 3 \<longrightarrow> fst (detectors_loop regs text) = 1"
    unfolding loc by (simp add: numeral_3_eq_3)
  have d: "(fst (detectors_loop regs text) \<ge> 8 / 10) = (?k \<ge> 3)"
    unfolding loc by (rule local_after_threshold)
  have e: "text_rule_step text hits (sl, regs)
       = (if fst (detectors_loop regs text) \<ge> 8 / 10
          then hits @ [(sl, min (95 / 100) (fst (detectors_loop regs text)),
                        join ''; '' (snd (detectors_loop regs text)))]
          else hits)"
    by (cases "detectors_loop regs text") (simp add: text_rule_step_def add_hit_def)
  have f: "\<forall>h \<in> set (text_rules table text []). fst (snd h) \<le> 95 / 100"
    using text_rules_capped [of "[]" table "text"] by simp
  have g: "\<forall>h \<in> set (rules_from_text_and_filename text filename state). fst (snd h) \<le> 95 / 100"
    using engine_capped by blast
  from a b c d e f g show ?thesis by blast
qed

theorem text_rule_accumulation_witness:
  "length (matching [PAN_RX, AADHAAR_RX, GSTIN_RX] ''ABCDE1234F Aadhaar 27ABCDE1234F1Z5'') = 3
   \<and> fst (detectors_loop [PAN_RX, AADHAAR_RX, GSTIN_RX] ''ABCDE1234F Aadhaar 27ABCDE1234F1Z5'') = 1
   \<and> (\<exists>why. text_rule_step ''ABCDE1234F Aadhaar 27ABCDE1234F1Z5'' []
              (''directors_pan_aadhaar'', [PAN_RX, AADHAAR_RX, GSTIN_RX])
            = [(''directors_pan_aadhaar'', 95 / 100, why)])
   \<and> length (matching [PAN_RX, AADHAAR_RX] ''ABCDE1234F Aadhaar 27ABCDE1234F1Z5'') = 2
   \<and> fst (detectors_loop [PAN_RX, AADHAAR_RX] ''ABCDE1234F Aadhaar 27ABCDE1234F1Z5'') = 3 / 4
   \<and> text_rule_step ''ABCDE1234F Aadhaar 27ABCDE1234F1Z5'' []
        (''directors_pan_aadhaar'', [PAN_RX, AADHAAR_RX]) = []"
proof -
  let ?t = "''ABCDE1234F Aadhaar 27ABCDE1234F1Z5''"
  have k3: "length (matching [PAN_RX, AADHAAR_RX, GSTIN_RX] ?t) = 3" by code_simp
  have k2: "length (matching [PAN_RX, AADHAAR_RX] ?t) = 2" by code_simp
  note t3 = text_rule_accumulation [of "[PAN_RX, AADHAAR_RX, GSTIN_RX]" ?t "[]"
      "''directors_pan_aadhaar''" "[]" "[]" None]
  note t2 = text_rule_accumulation [of "[PAN_RX, AADHAAR_RX]" ?t "[]"
      "''directors_pan_aadhaar''" "[]" "[]" None]
  from t3 k3 have l3: "fst (detectors_loop [PAN_RX, AADHAAR_RX, GSTIN_RX] ?t) = 1" by blast
  from t2 k2 have l2: "fst (detectors_loop [PAN_RX, AADHAAR_RX] ?t) = 3 / 4" by blast
  from t3 have "text_rule_step ?t [] (''directors_pan_aadhaar'', [PAN_RX, AADHAAR_RX, GSTIN_RX])
      = [(''directors_pan_aadhaar'', 95 / 100,
          join ''; '' (snd (detectors_loop [PAN_RX, AADHAAR_RX, GSTIN_RX] ?t)))]"
    unfolding l3 by simp
  moreover from t2 have "text_rule_step ?t [] (''directors_pan_aadhaar'', [PAN_RX, AADHAAR_RX]) = []"
    unfolding l2 by simp
  ultimately show ?thesis using k3 k2 l3 l2 by blast
qed

text \<open>
  C2. Every slug of the shipped table \<open>TEXT_RULES\<close> has at most two detectors, so its local
  score is at most 0.75 whatever the text is, and the text rules emit no hit. All hits of
  the rule engine are those of the bank-statement router, each with score 0.9, followed by
  those of the filename hints, each with score 0.85.
\<close>

theorem text_rules_never_fire:
  "(\<forall>item \<in> set TEXT_RULES. length (snd item) \<le> 2 \<and> fst (detectors_loop (snd item) text) \<le> 3 / 4)
   \<and> text_rules TEXT_RULES text [] = []
   \<and> rules_from_text_and_filename text filename state
       = bank_router text state @ filename_hints filename []
   \<and> (\<forall>h \<in> set (bank_router text state). fst (snd h) = 9 / 10)
   \<and> (\<forall>h \<in> set (filename_hints filename []). fst (snd h) = 85 / 100)"
proof -
  have short: "\<forall>item \<in> set TEXT_RULES. length (snd item) \<le> 2" by (rule TEXT_RULES_short)
  then have none: "text_rules TEXT_RULES text [] = []" by (rule text_rules_short)
  have split: "rules_from_text_and_filename text filename state
       = bank_router text state @ filename_hints filename []"
    by (simp add: engine_split none)
  show ?thesis
    using short short_list_no_hit none split bank_router_scores filename_hints_scores by blast
qed

theorem text_rules_never_fire_witness:
  "length [GSTIN_RX] \<le> 2
   \<and> search GSTIN_RX ''GSTIN 27ABCDE1234F1Z5'' = Some ''27ABCDE1234F1Z5''
   \<and> fst (detectors_loop [GSTIN_RX] ''GSTIN 27ABCDE1234F1Z5'') \<le> 3 / 4
   \<and> text_rules TEXT_RULES ''GSTIN 27ABCDE1234F1Z5'' [] = []
   \<and> rules_from_text_and_filename ''GSTIN 27ABCDE1234F1Z5'' ''GST_Certificate.pdf'' None
       = [(''dev_company_gst_pan'', 85 / 100, ''filename:gst''),
          (''group_company_gst_pan'', 85 / 100, ''filename:gst''),
          (''dev_llp_gst_pan'', 85 / 100, ''filename:gst''),
          (''dev_partnership_gst_pan'', 85 / 100, ''filename:gst'')]"
proof -
  let ?t = "''GSTIN 27ABCDE1234F1Z5''"
  note t = text_rules_never_fire [of ?t "''GST_Certificate.pdf''" None]
  have mem: "(''dev_company_gst_pan'', [GSTIN_RX]) \<in> set TEXT_RULES"
    by (simp add: TEXT_RULES_def)
  have gst: "search GSTIN_RX ?t = Some ''27ABCDE1234F1Z5''" by code_simp
  have bank: "bank_router ?t None = []"
  proof -
    have "search BANK_STMT_RX ?t = None" by code_simp
    then show ?thesis by (simp add: bank_router_def)
  qed
  have hints: "filename_hints ''GST_Certificate.pdf'' []
       = [(''dev_company_gst_pan'', 85 / 100, ''filename:gst''),
          (''group_company_gst_pan'', 85 / 100, ''filename:gst''),
          (''dev_llp_gst_pan'', 85 / 100, ''filename:gst''),
          (''dev_partnership_gst_pan'', 85 / 100, ''filename:gst'')]"
    by code_simp
  from t mem have "length (snd (''dev_company_gst_pan'', [GSTIN_RX])) \<le> 2
      \<and> fst (detectors_loop (snd (''dev_company_gst_pan'', [GSTIN_RX])) ?t) \<le> 3 / 4"
    by blast
  moreover from t have "text_rules TEXT_RULES ?t [] = []" by blast
  moreover from t have "rules_from_text_and_filename ?t ''GST_Certificate.pdf'' None
       = bank_router ?t None @ filename_hints ''GST_Certificate.pdf'' []"
    by blast
  ultimately show ?thesis using gst bank hints by simp
qed

section \<open>Properties of the descending sort\<close>

lemma mset_insort_desc: "mset (insort_desc key x xs) = add_mset x (mset xs)"
  by (induction xs) simp_all

lemma mset_sort_desc: "mset (sort_desc key xs) = mset xs"
  unfolding sort_desc_def by (induction xs) (simp_all add: mset_insort_desc)

lemma set_sort_desc: "set (sort_desc key xs) = set xs"
  using mset_sort_desc [of key xs] by (metis set_mset_mset)

lemma length_sort_desc: "length (sort_desc key xs) = length xs"
  using mset_sort_desc [of key xs] by (metis size_mset)

lemma set_insort_desc: "set (insort_desc key x xs) = insert x (set xs)"
  using mset_insort_desc [of key x xs] by (metis set_mset_mset set_mset_add_mset_insert)

lemma sorted_insort_desc:
  "sorted_wrt (\<lambda>a b. key a \<ge> key b) xs \<Longrightarrow> sorted_wrt (\<lambda>a b. key a \<ge> key b) (insort_desc key x xs)"
  by (induction xs) (auto simp: set_insort_desc)

lemma sorted_sort_desc: "sorted_wrt (\<lambda>a b. key a \<ge> key b) (sort_desc key xs)"
  unfolding sort_desc_def by (induction xs) (simp_all add: sorted_insort_desc)

lemma sort_desc_head_max:
  assumes "sort_desc key xs = y # ys" and "x \<in> set xs"
  shows "key x \<le> key y"
proof -
  have "sorted_wrt (\<lambda>a b. key a \<ge> key b) (y # ys)"
    using sorted_sort_desc [of key xs] assms(1) by simp
  moreover have "x \<in> set (y # ys)" using set_sort_desc [of key xs] assms by simp
  ultimately show ?thesis by auto
qed

section \<open>Properties of the resolver\<close>

lemma decide_Inr_iff:
  assumes "get_chunks d (row_id doc) None = Inr chunks"
    and "score_categories ext (document_name doc) chunks cats
              (fusion_weights (is_generic_filename (document_name doc)) (dup_count_of fname_cnts doc)) = first # rest"
  shows "decide ext d doc cats fname_cnts state
     = Inr (first # rest, rule_override
              (rule_best (rules_from_text_and_filename (full_text chunks) (document_name doc) state))
              (first # rest) first)"
  using assms unfolding decide_def Let_def dup_count_of_def by simp

lemma decide_Inr:
  assumes "decide ext d doc cats fname_cnts state = Inr (scored_list, dec)"
  shows "\<exists>chunks first rest.
           get_chunks d (row_id doc) None = Inr chunks
         \<and> scored_list = score_categories ext (document_name doc) chunks cats
              (fusion_weights (is_generic_filename (document_name doc)) (dup_count_of fname_cnts doc))
         \<and> scored_list = first # rest
         \<and> dec = rule_override
              (rule_best (rules_from_text_and_filename (full_text chunks) (document_name doc) state))
              scored_list first"
proof (cases "get_chunks d (row_id doc) None")
  case (Inl e)
  with assms show ?thesis by (simp add: decide_def Let_def)
next
  case (Inr chunks)
  let ?sl = "score_categories ext (document_name doc) chunks cats
              (fusion_weights (is_generic_filename (document_name doc)) (dup_count_of fname_cnts doc))"
  show ?thesis
  proof (cases ?sl)
    case Nil
    with assms Inr show ?thesis by (simp add: decide_def Let_def dup_count_of_def)
  next
    case (Cons first rest)
    have "decide ext d doc cats fname_cnts state
       = Inr (first # rest, rule_override
              (rule_best (rules_from_text_and_filename (full_text chunks) (document_name doc) state))
              (first # rest) first)"
      using Inr Cons by (rule decide_Inr_iff)
    with assms have "(Inr (scored_list, dec) :: error + scored list \<times> decision)
       = Inr (first # rest, rule_override
              (rule_best (rules_from_text_and_filename (full_text chunks) (document_name doc) state))
              (first # rest) first)"
      by (rule trans [OF sym])
    then have "scored_list = first # rest
      \<and> dec = rule_override
              (rule_best (rules_from_text_and_filename (full_text chunks) (document_name doc) state))
              (first # rest) first"
      by (simp only: sum.inject prod.inject)
    with Inr Cons show ?thesis by metis
  qed
qed

lemma fusion_weights_spec:
  "fusion_weights generic dup = (spec_filename_weight generic dup, 30 / 100, 30 / 100)"
  by (simp add: fusion_weights_def spec_filename_weight_def Let_def)

lemma py_round_weights:
  "py_round 0 2 = 0" "py_round (1 / 5) 2 = 1 / 5" "py_round (2 / 5) 2 = 2 / 5"
  "py_round (3 / 10) 2 = 3 / 10"
  by (simp_all add: py_round_def Let_def)

lemma scored_entries:
  assumes "x \<in> set (score_categories ext fname chunks cats ws)"
  shows "\<exists>c \<in> set cats. x = (slug c,
            fuse_scores (score_filename ext fname c) (score_keywords chunks c 6) (embedding_score ext chunks c) ws,
            (score_filename ext fname c, score_keywords chunks c 6, embedding_score ext chunks c), c)"
  using assms unfolding score_categories_def set_sort_desc Let_def by auto

lemma categorize_Inr:
  assumes "categorize_document ext d doc cats fname_cnts state topk_show = Inr r"
  shows "\<exists>scored_list dec. decide ext d doc cats fname_cnts state = Inr (scored_list, dec)
          \<and> status r = status_of (d_final dec) \<and> final r = py_round (d_final dec) 3
          \<and> best_slug r = d_slug dec \<and> rule r = d_rule dec
          \<and> weights r = (let ws = fusion_weights (is_generic_filename (document_name doc)) (dup_count_of fname_cnts doc)
                         in (py_round (fst ws) 2, py_round (fst (snd ws)) 2, py_round (snd (snd ws)) 2))
          \<and> name_dup_count r = dup_count_of fname_cnts doc
          \<and> is_generic_name r = is_generic_filename (document_name doc)"
  using assms unfolding categorize_document_def Let_def dup_count_of_def
  by (auto split: sum.splits prod.splits)

lemma reported_weights:
  "(let ws = fusion_weights generic dup
    in (py_round (fst ws) 2, py_round (fst (snd ws)) 2, py_round (snd (snd ws)) 2))
   = (spec_filename_weight generic dup, 30 / 100, 30 / 100)"
  by (simp add: fusion_weights_def spec_filename_weight_def Let_def py_round_weights)

text \<open>
  C5. The filename weight is 0 when the filename is generic or its duplicate count is at
  least 3, 0.20 when the count is 2 and 0.40 otherwise; the keyword and embedding weights
  are 0.30. These are the weights every candidate category is fused with, for the
  generic flag of the document's name and the count its lower-cased name has in the
  table of counts, and the weights the result reports.
\<close>

theorem filename_weight_damping:
  "fusion_weights generic dup
     = ((if generic \<or> dup \<ge> 3 then 0 else if dup = 2 then 20 / 100 else 40 / 100), 30 / 100, 30 / 100)
   \<and> (decide ext d doc cats fname_cnts state = Inr (scored_list, dec) \<longrightarrow>
        (\<forall>x \<in> set scored_list. \<exists>c \<in> set cats. \<exists>a b e.
           x = (slug c, fuse_scores a b e
                  (spec_filename_weight (is_generic_filename (document_name doc)) (dup_count_of fname_cnts doc),
                   30 / 100, 30 / 100), (a, b, e), c)))
   \<and> (categorize_document ext d doc cats fname_cnts state topk_show = Inr r \<longrightarrow>
        weights r = (spec_filename_weight (is_generic_filename (document_name doc)) (dup_count_of fname_cnts doc),
                     30 / 100, 30 / 100)
        \<and> name_dup_count r = dup_count_of fname_cnts doc
        \<and> is_generic_name r = is_generic_filename (document_name doc))"
proof (intro conjI impI)
  show "fusion_weights generic dup
     = ((if generic \<or> dup \<ge> 3 then 0 else if dup = 2 then 20 / 100 else 40 / 100), 30 / 100, 30 / 100)"
    by (simp add: fusion_weights_def Let_def)
next
  assume dec: "decide ext d doc cats fname_cnts state = Inr (scored_list, dec)"
  show "\<forall>x \<in> set scored_list. \<exists>c \<in> set cats. \<exists>a b e.
           x = (slug c, fuse_scores a b e
                  (spec_filename_weight (is_generic_filename (document_name doc)) (dup_count_of fname_cnts doc),
                   30 / 100, 30 / 100), (a, b, e), c)"
  proof
    fix x assume x: "x \<in> set scored_list"
    from decide_Inr [OF dec] obtain chunks where
      sl: "scored_list = score_categories ext (document_name doc) chunks cats
              (fusion_weights (is_generic_filename (document_name doc)) (dup_count_of fname_cnts doc))"
      by blast
    from x scored_entries [of x ext "document_name doc" chunks cats] 
    show "\<exists>c \<in> set cats. \<exists>a b e.
           x = (slug c, fuse_scores a b e
                  (spec_filename_weight (is_generic_filename (document_name doc)) (dup_count_of fname_cnts doc),
                   30 / 100, 30 / 100), (a, b, e), c)"
      unfolding sl fusion_weights_spec by blast
  qed
next
  assume r: "categorize_document ext d doc cats fname_cnts state topk_show = Inr r"
  from categorize_Inr [OF r] reported_weights
  show "weights r = (spec_filename_weight (is_generic_filename (document_name doc)) (dup_count_of fname_cnts doc),
                     30 / 100, 30 / 100)"
    by auto
next
  assume r: "categorize_document ext d doc cats fname_cnts state topk_show = Inr r"
  from categorize_Inr [OF r] show "name_dup_count r = dup_count_of fname_cnts doc" by auto
next
  assume r: "categorize_document ext d doc cats fname_cnts state topk_show = Inr r"
  from categorize_Inr [OF r] show "is_generic_name r = is_generic_filename (document_name doc)" by auto
qed

lemma max_by_score_mem: "max_by_score b hs \<in> set (b # hs)"
  by (induction hs arbitrary: b) auto

lemma max_by_score_bound: "fst (snd b) \<le> fst (snd (max_by_score b hs))"
proof (induction hs arbitrary: b)
  case Nil
  show ?case by simp
next
  case (Cons h hs)
  show ?case
  proof (cases "fst (snd h) > fst (snd b)")
    case True
    with Cons.IH [of h] show ?thesis by simp
  next
    case False
    with Cons.IH [of b] show ?thesis by simp
  qed
qed

lemma max_by_score_max: "h \<in> set (b # hs) \<Longrightarrow> fst (snd h) \<le> fst (snd (max_by_score b hs))"
proof (induction hs arbitrary: b)
  case Nil
  then show ?case by simp
next
  case (Cons x hs)
  let ?b' = "if fst (snd x) > fst (snd b) then x else b"
  have step: "max_by_score b (x # hs) = max_by_score ?b' hs" by simp
  have bound: "fst (snd ?b') \<le> fst (snd (max_by_score ?b' hs))" by (rule max_by_score_bound)
  from Cons.prems consider "h = b" | "h = x" | "h \<in> set hs" by auto
  then show ?case
  proof cases
    case 1
    have "fst (snd h) \<le> fst (snd ?b')" unfolding 1 by simp
    then show ?thesis unfolding step using bound by (rule order_trans)
  next
    case 2
    have "fst (snd h) \<le> fst (snd ?b')" unfolding 2 by simp
    then show ?thesis unfolding step using bound by (rule order_trans)
  next
    case 3
    then have "h \<in> set (?b' # hs)" by simp
    then show ?thesis unfolding step by (rule Cons.IH)
  qed
qed

lemma rule_best_Some:
  assumes "rule_best hits = Some h"
  shows "h \<in> set hits \<and> (\<forall>h' \<in> set hits. fst (snd h') \<le> fst (snd h))"
proof (cases hits)
  case Nil
  with assms show ?thesis by (simp add: rule_best_def)
next
  case (Cons b hs)
  with assms have h: "h = max_by_score b hs" by (simp add: rule_best_def)
  show ?thesis unfolding h Cons using max_by_score_mem max_by_score_max by blast
qed

lemma rule_best_None: "(rule_best hits = None) = (hits = [])"
  by (cases hits) (simp_all add: rule_best_def)

lemma scored_slugs: "fst ` set (score_categories ext fname chunks cats ws) = slug ` set cats"
  unfolding score_categories_def set_sort_desc Let_def by (auto simp: image_iff)

lemma scored_cats:
  "x \<in> set (score_categories ext fname chunks cats ws) \<Longrightarrow>
   snd (snd (snd x)) \<in> set cats \<and> slug (snd (snd (snd x))) = fst x"
  using scored_entries [of x ext fname chunks cats ws] by auto

lemma rule_override_found:
  assumes "r_slug \<in> fst ` set scored_list"
  shows "\<exists>x \<in> set scored_list. fst x = r_slug
          \<and> rule_override (Some (r_slug, r_score, reason)) scored_list first
              = \<lparr>d_slug = r_slug, d_cat = snd (snd (snd x)),
                 d_final = max (fst (snd first)) r_score,
                 d_rule = Some (r_slug, py_round r_score 3, reason)\<rparr>"
proof -
  from assms obtain y where "y \<in> set scored_list" "fst y = r_slug" by auto
  then have "find (\<lambda>x. fst x = r_slug) scored_list \<noteq> None"
    unfolding find_None_iff by blast
  then obtain x where x: "find (\<lambda>x. fst x = r_slug) scored_list = Some x" by blast
  then have mem: "x \<in> set scored_list" and fx: "fst x = r_slug"
    by (auto simp: find_Some_iff)
  obtain a b c e where xe: "x = (a, b, c, e)" by (cases x) auto
  obtain a0 b0 c0 e0 where fe: "first = (a0, b0, c0, e0)" by (cases first) auto
  have "rule_override (Some (r_slug, r_score, reason)) scored_list first
              = \<lparr>d_slug = r_slug, d_cat = snd (snd (snd x)),
                 d_final = max (fst (snd first)) r_score,
                 d_rule = Some (r_slug, py_round r_score 3, reason)\<rparr>"
    unfolding rule_override_def fe using x xe by simp
  with mem fx show ?thesis by blast
qed

lemma rule_override_missing:
  assumes "r_slug \<notin> fst ` set scored_list"
  shows "rule_override (Some (r_slug, r_score, reason)) scored_list first
              = \<lparr>d_slug = fst first, d_cat = snd (snd (snd first)),
                 d_final = max (fst (snd first)) (r_score * (9 / 10)),
                 d_rule = Some (r_slug, py_round (r_score * (9 / 10)) 3, reason @ '' (partial)'')\<rparr>"
proof -
  from assms have "\<forall>x \<in> set scored_list. fst x \<noteq> r_slug" by force
  then have "find (\<lambda>x. fst x = r_slug) scored_list = None"
    unfolding find_None_iff by blast
  moreover obtain a0 b0 c0 e0 where fe: "first = (a0, b0, c0, e0)" by (cases first) auto
  ultimately show ?thesis unfolding rule_override_def by simp
qed

text \<open>
  C3. When the rule engine returns hits, the hit taken is one of maximal score. With
  \<open>first\<close> the top candidate of the fused ranking: if the hit's slug belongs to a candidate
  category, that slug and a candidate category with that slug win, the final score is the
  maximum of the top fused score and the rule score, and the rule is recorded with its
  reason; otherwise the top fused candidate stays the winner, the final score is the
  maximum of the top fused score and 0.9 times the rule score, and the recorded reason
  ends in \<open>(partial)\<close>.
\<close>

theorem rule_override_cases:
  assumes "decide ext d doc cats fname_cnts state = Inr (scored_list, dec)"
    and "get_chunks d (row_id doc) None = Inr chunks"
    and "rule_best (rules_from_text_and_filename (full_text chunks) (document_name doc) state)
           = Some (r_slug, r_score, reason)"
  shows "(r_slug, r_score, reason)
            \<in> set (rules_from_text_and_filename (full_text chunks) (document_name doc) state)
     \<and> (\<forall>h \<in> set (rules_from_text_and_filename (full_text chunks) (document_name doc) state).
           fst (snd h) \<le> r_score)
     \<and> (\<exists>first rest. scored_list = first # rest
           \<and> (\<forall>x \<in> set scored_list. fst (snd x) \<le> fst (snd first))
           \<and> (r_slug \<in> slug ` set cats \<longrightarrow>
                 d_slug dec = r_slug \<and> slug (d_cat dec) = r_slug \<and> d_cat dec \<in> set cats
               \<and> d_final dec = max (fst (snd first)) r_score
               \<and> d_rule dec = Some (r_slug, py_round r_score 3, reason))
           \<and> (r_slug \<notin> slug ` set cats \<longrightarrow>
                 d_slug dec = fst first \<and> d_cat dec = snd (snd (snd first))
               \<and> d_final dec = max (fst (snd first)) (r_score * (9 / 10))
               \<and> d_rule dec = Some (r_slug, py_round (r_score * (9 / 10)) 3,
                                     reason @ '' (partial)'')))"
proof -
  let ?hits = "rules_from_text_and_filename (full_text chunks) (document_name doc) state"
  let ?ws = "fusion_weights (is_generic_filename (document_name doc)) (dup_count_of fname_cnts doc)"
  from rule_best_Some [OF assms(3)]
  have best: "(r_slug, r_score, reason) \<in> set ?hits" "\<forall>h \<in> set ?hits. fst (snd h) \<le> r_score"
    by simp_all
  from decide_Inr [OF assms(1)] assms(2) obtain first rest where
    sl: "scored_list = score_categories ext (document_name doc) chunks cats ?ws"
    and cons: "scored_list = first # rest"
    and dec: "dec = rule_override (rule_best ?hits) scored_list first"
    by auto
  have dec': "dec = rule_override (Some (r_slug, r_score, reason)) scored_list first"
    using dec assms(3) by simp
  have slugs: "fst ` set scored_list = slug ` set cats" unfolding sl by (rule scored_slugs)
  have top: "\<forall>x \<in> set scored_list. fst (snd x) \<le> fst (snd first)"
  proof
    fix x assume x: "x \<in> set scored_list"
    have "sorted_wrt (\<lambda>a b. fst (snd a) \<ge> fst (snd b)) scored_list"
      unfolding sl score_categories_def by (rule sorted_sort_desc)
    with x show "fst (snd x) \<le> fst (snd first)" unfolding cons by auto
  qed
  have found: "r_slug \<in> slug ` set cats \<longrightarrow>
                 d_slug dec = r_slug \<and> slug (d_cat dec) = r_slug \<and> d_cat dec \<in> set cats
               \<and> d_final dec = max (fst (snd first)) r_score
               \<and> d_rule dec = Some (r_slug, py_round r_score 3, reason)"
  proof
    assume "r_slug \<in> slug ` set cats"
    then have "r_slug \<in> fst ` set scored_list" using slugs by simp
    from rule_override_found [OF this, of r_score reason first] obtain x where
      x: "x \<in> set scored_list" "fst x = r_slug"
      and ov: "dec = \<lparr>d_slug = r_slug, d_cat = snd (snd (snd x)),
                 d_final = max (fst (snd first)) r_score,
                 d_rule = Some (r_slug, py_round r_score 3, reason)\<rparr>"
      unfolding dec' by blast
    from x(1) have "snd (snd (snd x)) \<in> set cats \<and> slug (snd (snd (snd x))) = fst x"
      unfolding sl by (rule scored_cats)
    with x(2) show "d_slug dec = r_slug \<and> slug (d_cat dec) = r_slug \<and> d_cat dec \<in> set cats
               \<and> d_final dec = max (fst (snd first)) r_score
               \<and> d_rule dec = Some (r_slug, py_round r_score 3, reason)"
      unfolding ov by simp
  qed
  have missing: "r_slug \<notin> slug ` set cats \<longrightarrow>
                 d_slug dec = fst first \<and> d_cat dec = snd (snd (snd first))
               \<and> d_final dec = max (fst (snd first)) (r_score * (9 / 10))
               \<and> d_rule dec = Some (r_slug, py_round (r_score * (9 / 10)) 3,
                                     reason @ '' (partial)'')"
  proof
    assume "r_slug \<notin> slug ` set cats"
    then have "r_slug \<notin> fst ` set scored_list" using slugs by simp
    from rule_override_missing [OF this, of r_score reason first]
    show "d_slug dec = fst first \<and> d_cat dec = snd (snd (snd first))
               \<and> d_final dec = max (fst (snd first)) (r_score * (9 / 10))
               \<and> d_rule dec = Some (r_slug, py_round (r_score * (9 / 10)) 3,
                                     reason @ '' (partial)'')"
      unfolding dec' by simp
  qed
  from best cons top found missing show ?thesis by blast
qed

lemma status_of_cases:
  "(f \<ge> 70 / 100 \<longrightarrow> status_of f = ''accepted'')
   \<and> (60 / 100 \<le> f \<and> f < 70 / 100 \<longrightarrow> status_of f = ''needs_review'')
   \<and> (f < 60 / 100 \<longrightarrow> status_of f = ''unassigned'')"
  by (simp add: status_of_def)

lemma decide_ignores_row:
  "decide ext d (doc\<lparr>canonical_slug := a, row_top_entity := b, row_org_variant := c,
        row_state_variant := e, confidence := cf, row_status := st\<rparr>) cats fname_cnts state
   = decide ext d doc cats fname_cnts state"
  by (simp add: decide_def)

lemma decide_ignores_documents:
  "decide ext (d\<lparr>documents := rows\<rparr>) doc cats fname_cnts state = decide ext d doc cats fname_cnts state"
  by (simp add: decide_def get_chunks_def)

text \<open>
  C6. The status is read off the final score of the decision (the result reports that
  score rounded to three decimals): accepted from 0.70 on, needs_review from 0.60 up to
  0.70, unassigned below 0.60. Nothing stored about the document or about any other
  document changes the result: the stored category, role, variants, confidence and
  status of the row, and the rows of the documents table, are not read.
\<close>

theorem status_thresholds:
  "(categorize_document ext d doc cats fname_cnts state topk_show = Inr r \<longrightarrow>
      (\<exists>scored_list dec. decide ext d doc cats fname_cnts state = Inr (scored_list, dec)
         \<and> final r = py_round (d_final dec) 3
         \<and> (d_final dec \<ge> 70 / 100 \<longrightarrow> status r = ''accepted'')
         \<and> (60 / 100 \<le> d_final dec \<and> d_final dec < 70 / 100 \<longrightarrow> status r = ''needs_review'')
         \<and> (d_final dec < 60 / 100 \<longrightarrow> status r = ''unassigned'')))
   \<and> categorize_document ext (d\<lparr>documents := rows\<rparr>)
        (doc\<lparr>canonical_slug := a, row_top_entity := b, row_org_variant := c,
             row_state_variant := e, confidence := cf, row_status := st\<rparr>)
        cats fname_cnts state topk_show
      = categorize_document ext d doc cats fname_cnts state topk_show"
proof (intro conjI impI)
  assume r: "categorize_document ext d doc cats fname_cnts state topk_show = Inr r"
  from categorize_Inr [OF r] obtain scored_list dec where
    "decide ext d doc cats fname_cnts state = Inr (scored_list, dec)"
    "status r = status_of (d_final dec)" "final r = py_round (d_final dec) 3"
    by blast
  then show "\<exists>scored_list dec. decide ext d doc cats fname_cnts state = Inr (scored_list, dec)
         \<and> final r = py_round (d_final dec) 3
         \<and> (d_final dec \<ge> 70 / 100 \<longrightarrow> status r = ''accepted'')
         \<and> (60 / 100 \<le> d_final dec \<and> d_final dec < 70 / 100 \<longrightarrow> status r = ''needs_review'')
         \<and> (d_final dec < 60 / 100 \<longrightarrow> status r = ''unassigned'')"
    using status_of_cases [of "d_final dec"] by auto
next
  show "categorize_document ext (d\<lparr>documents := rows\<rparr>)
        (doc\<lparr>canonical_slug := a, row_top_entity := b, row_org_variant := c,
             row_state_variant := e, confidence := cf, row_status := st\<rparr>)
        cats fname_cnts state topk_show
      = categorize_document ext d doc cats fname_cnts state topk_show"
    unfolding categorize_document_def decide_ignores_row decide_ignores_documents
    by (simp split: sum.splits prod.splits)
qed

lemma engine_hits:
  "rules_from_text_and_filename text filename state = bank_router text state @ filename_hints filename []"
  using text_rules_short [OF TEXT_RULES_short, of "text" "[]"] by (simp add: engine_split)

lemma gst_filename_hints:
  "filename_hints ''GST_Certificate.pdf'' []
     = [(''dev_company_gst_pan'', 85 / 100, ''filename:gst''),
        (''group_company_gst_pan'', 85 / 100, ''filename:gst''),
        (''dev_llp_gst_pan'', 85 / 100, ''filename:gst''),
        (''dev_partnership_gst_pan'', 85 / 100, ''filename:gst'')]"
  by code_simp


lemma score_categories_length: "length (score_categories ext fname chunks cats ws) = length cats"
  by (simp add: score_categories_def length_sort_desc)

lemma categorize_of_decide:
  assumes "decide ext d doc cats fname_cnts state = Inr (scored_list, dec)"
  shows "\<exists>r. categorize_document ext d doc cats fname_cnts state topk_show = Inr r"
  using assms by (simp add: categorize_document_def Let_def)

lemma decide_total:
  assumes "get_chunks d (row_id doc) None = Inr chunks" and "cats \<noteq> []"
  shows "\<exists>scored_list dec. decide ext d doc cats fname_cnts state = Inr (scored_list, dec)"
proof -
  let ?sl = "score_categories ext (document_name doc) chunks cats
              (fusion_weights (is_generic_filename (document_name doc)) (dup_count_of fname_cnts doc))"
  have "length ?sl = length cats" by (rule score_categories_length)
  with assms(2) obtain first rest where "?sl = first # rest" by (cases ?sl) auto
  with assms(1) show ?thesis using decide_Inr_iff by blast
qed



section \<open>The example documents\<close>

lemma ex_chunks1: "get_chunks ex_db (row_id (ex_row 1 n s)) None = Inr [(1, ''GSTIN: 27ABCDE1234F1Z5'', ())]"
  by (simp add: get_chunks_def ex_db_def ex_row_def)

lemma ex_chunks2: "get_chunks ex_db (row_id (ex_row 2 n s)) None = Inr [(1, ''plain text'', ())]"
  by (simp add: get_chunks_def ex_db_def ex_row_def)

lemma ex_chunks3: "get_chunks ex_db (row_id (ex_row 3 n s)) None = Inr [(1, ''plain text'', ())]"
  by (simp add: get_chunks_def ex_db_def ex_row_def)

lemma ex_chunks5: "get_chunks ex_db (row_id (ex_row 5 n s)) None = Inr [(1, ''plain text'', ())]"
  by (simp add: get_chunks_def ex_db_def ex_row_def)

lemma ex_text1: "full_text [(1 :: nat, ''GSTIN: 27ABCDE1234F1Z5'', ())] = ''GSTIN: 27ABCDE1234F1Z5''"
  by (simp add: full_text_def Let_def)

lemma ex_text2: "full_text [(1 :: nat, ''plain text'', ())] = ''plain text''"
  by (simp add: full_text_def Let_def)

lemma ex_name: "document_name (ex_row i n s) = n"
  by (simp add: ex_row_def)


lemma ex_nobank1: "search BANK_STMT_RX ''GSTIN: 27ABCDE1234F1Z5'' = None"
  by code_simp

lemma ex_nobank2: "search BANK_STMT_RX ''plain text'' = None"
  by code_simp


lemma ex_dup3: "dup_count_of (filename_counts ex_db) (ex_row 3 ''Site_Plan_A.pdf'' None) = 2"
  by code_simp

lemma ex_generic3: "is_generic_filename ''Site_Plan_A.pdf'' = False"
  by code_simp

lemma rera_filename_hints:
  "filename_hints ''rera_approval.pdf'' []
     = [(''ts_rera_certificate'', 85 / 100, ''filename:rera''),
        (''ka_rera'', 85 / 100, ''filename:rera'')]"
  by code_simp

lemma ex_best1:
  "rule_best (rules_from_text_and_filename (full_text [(1 :: nat, ''GSTIN: 27ABCDE1234F1Z5'', ())])
       ''GST_Certificate.pdf'' state)
     = Some (''dev_company_gst_pan'', 85 / 100, ''filename:gst'')"
proof -
  have "bank_router ''GSTIN: 27ABCDE1234F1Z5'' state = []"
    using ex_nobank1 by (simp add: bank_router_def)
  then show ?thesis
    unfolding ex_text1 engine_hits gst_filename_hints by (simp add: rule_best_def)
qed

lemma ex_best2:
  "rule_best (rules_from_text_and_filename (full_text [(1 :: nat, ''plain text'', ())])
       ''rera_approval.pdf'' state)
     = Some (''ts_rera_certificate'', 85 / 100, ''filename:rera'')"
proof -
  have "bank_router ''plain text'' state = []"
    using ex_nobank2 by (simp add: bank_router_def)
  then show ?thesis
    unfolding ex_text2 engine_hits rera_filename_hints by (simp add: rule_best_def)
qed


lemma ex_final5:
  "map_sum id (\<lambda>x. d_final (snd x))
     (decide ex_ext ex_db (ex_row 5 ''Layout_Plan.pdf'' None) [ex_gst, ex_layout]
        (filename_counts ex_db) (Some ''TS''))
   = Inr (65 / 100)"
  by code_simp

lemma ex_final3:
  "map_sum id (\<lambda>x. d_final (snd x))
     (decide ex_ext ex_db (ex_row 3 ''Site_Plan_A.pdf'' None) [ex_gst, ex_layout]
        (filename_counts ex_db) (Some ''TS''))
   = Inr (25 / 100)"
  by code_simp

lemma ex_final2:
  "map_sum id (\<lambda>x. d_final (snd x))
     (decide ex_ext ex_db (ex_row 2 ''rera_approval.pdf'' None) [ex_gst, ex_layout]
        (filename_counts ex_db) (Some ''TS''))
   = Inr (765 / 1000)"
  by code_simp

lemma ex_chunks6: "get_chunks ex_db (row_id (ex_row 6 n s)) None = Inr [(1, ''GSTIN: 27ABCDE1234F1Z5'', ())]"
  by (simp add: get_chunks_def ex_db_def ex_row_def)



section \<open>The properties of the resolver on the example documents\<close>


theorem rule_override_cases_witness:
  "(\<exists>first rest dec.
       decide ex_ext ex_db (ex_row 1 ''GST_Certificate.pdf'' None) [ex_misc, ex_gst]
          (filename_counts ex_db) (Some ''TS'') = Inr (first # rest, dec)
     \<and> d_slug dec = ''dev_company_gst_pan'' \<and> d_cat dec = ex_gst
     \<and> d_final dec = max (fst (snd first)) (85 / 100)
     \<and> d_rule dec = Some (''dev_company_gst_pan'', 85 / 100, ''filename:gst''))
   \<and> (\<exists>first rest dec.
       decide ex_ext ex_db (ex_row 2 ''rera_approval.pdf'' None) [ex_gst, ex_layout]
          (filename_counts ex_db) (Some ''TS'') = Inr (first # rest, dec)
     \<and> d_slug dec = fst first \<and> d_cat dec = snd (snd (snd first))
     \<and> d_final dec = max (fst (snd first)) (765 / 1000)
     \<and> d_rule dec = Some (''ts_rera_certificate'', 765 / 1000, ''filename:rera (partial)''))"
proof -
  have r85: "py_round (85 / 100) 3 = 85 / 100" by (simp add: py_round_def Let_def)
  have r765: "py_round (85 / 100 * (9 / 10)) 3 = 765 / 1000" by (simp add: py_round_def Let_def)
  have a: "\<exists>first rest dec.
       decide ex_ext ex_db (ex_row 1 ''GST_Certificate.pdf'' None) [ex_misc, ex_gst]
          (filename_counts ex_db) (Some ''TS'') = Inr (first # rest, dec)
     \<and> d_slug dec = ''dev_company_gst_pan'' \<and> d_cat dec = ex_gst
     \<and> d_final dec = max (fst (snd first)) (85 / 100)
     \<and> d_rule dec = Some (''dev_company_gst_pan'', 85 / 100, ''filename:gst'')"
  proof -
    let ?doc = "ex_row 1 ''GST_Certificate.pdf'' None"
    have ne: "[ex_misc, ex_gst] \<noteq> []" by simp
    from decide_total [OF ex_chunks1 ne] obtain scored_list dec where
      dec: "decide ex_ext ex_db ?doc [ex_misc, ex_gst] (filename_counts ex_db) (Some ''TS'') = Inr (scored_list, dec)"
      by blast
    have best: "rule_best (rules_from_text_and_filename (full_text [(1 :: nat, ''GSTIN: 27ABCDE1234F1Z5'', ())])
           (document_name ?doc) (Some ''TS'')) = Some (''dev_company_gst_pan'', 85 / 100, ''filename:gst'')"
      unfolding ex_name by (rule ex_best1)
    have mem: "''dev_company_gst_pan'' \<in> slug ` set [ex_misc, ex_gst]" by (simp add: ex_gst_def)
    from rule_override_cases [OF dec ex_chunks1 best] mem obtain first rest where
      cons: "scored_list = first # rest"
      and f: "d_slug dec = ''dev_company_gst_pan''" "slug (d_cat dec) = ''dev_company_gst_pan''"
        "d_cat dec \<in> set [ex_misc, ex_gst]"
        "d_final dec = max (fst (snd first)) (85 / 100)"
        "d_rule dec = Some (''dev_company_gst_pan'', py_round (85 / 100) 3, ''filename:gst'')"
      by blast
    from f(2,3) have "d_cat dec = ex_gst" by (auto simp: ex_misc_def)
    with dec cons f show ?thesis unfolding r85 by blast
  qed
  have b: "\<exists>first rest dec.
       decide ex_ext ex_db (ex_row 2 ''rera_approval.pdf'' None) [ex_gst, ex_layout]
          (filename_counts ex_db) (Some ''TS'') = Inr (first # rest, dec)
     \<and> d_slug dec = fst first \<and> d_cat dec = snd (snd (snd first))
     \<and> d_final dec = max (fst (snd first)) (765 / 1000)
     \<and> d_rule dec = Some (''ts_rera_certificate'', 765 / 1000, ''filename:rera (partial)'')"
  proof -
    let ?doc = "ex_row 2 ''rera_approval.pdf'' None"
    have ne: "[ex_gst, ex_layout] \<noteq> []" by simp
    from decide_total [OF ex_chunks2 ne] obtain scored_list dec where
      dec: "decide ex_ext ex_db ?doc [ex_gst, ex_layout] (filename_counts ex_db) (Some ''TS'') = Inr (scored_list, dec)"
      by blast
    have best: "rule_best (rules_from_text_and_filename (full_text [(1 :: nat, ''plain text'', ())])
           (document_name ?doc) (Some ''TS'')) = Some (''ts_rera_certificate'', 85 / 100, ''filename:rera'')"
      unfolding ex_name by (rule ex_best2)
    have nomem: "''ts_rera_certificate'' \<notin> slug ` set [ex_gst, ex_layout]"
      by (simp add: ex_gst_def ex_layout_def)
    from rule_override_cases [OF dec ex_chunks2 best] nomem obtain first rest where
      cons: "scored_list = first # rest"
      and f: "d_slug dec = fst first" "d_cat dec = snd (snd (snd first))"
        "d_final dec = max (fst (snd first)) (85 / 100 * (9 / 10))"
        "d_rule dec = Some (''ts_rera_certificate'', py_round (85 / 100 * (9 / 10)) 3,
                            ''filename:rera'' @ '' (partial)'')"
      by blast
    have "(85 / 100 * (9 / 10) :: rat) = 765 / 1000" by simp
    with dec cons f show ?thesis unfolding r765 by auto
  qed
  from a b show ?thesis by blast
qed

theorem filename_weight_damping_witness:
  "dup_count_of (filename_counts ex_db) (ex_row 3 ''Site_Plan_A.pdf'' None) = 2
   \<and> is_generic_filename ''Site_Plan_A.pdf'' = False
   \<and> (\<exists>r. categorize_document ex_ext ex_db (ex_row 3 ''Site_Plan_A.pdf'' None) [ex_gst, ex_layout]
              (filename_counts ex_db) (Some ''TS'') 3 = Inr r
          \<and> weights r = (20 / 100, 30 / 100, 30 / 100))
   \<and> (\<exists>first rest dec c a b e.
          decide ex_ext ex_db (ex_row 3 ''Site_Plan_A.pdf'' None) [ex_gst, ex_layout]
              (filename_counts ex_db) (Some ''TS'') = Inr (first # rest, dec)
          \<and> first = (slug c, fuse_scores a b e (20 / 100, 30 / 100, 30 / 100), (a, b, e), c))"
proof -
  let ?doc = "ex_row 3 ''Site_Plan_A.pdf'' None"
  let ?cats = "[ex_gst, ex_layout]"
  have w: "spec_filename_weight (is_generic_filename (document_name ?doc))
             (dup_count_of (filename_counts ex_db) ?doc) = 20 / 100"
    unfolding ex_name ex_dup3 ex_generic3 by (simp add: spec_filename_weight_def)
  have ne: "?cats \<noteq> []" by simp
  from decide_total [OF ex_chunks3 ne] obtain scored_list dec where
    dec: "decide ex_ext ex_db ?doc ?cats (filename_counts ex_db) (Some ''TS'') = Inr (scored_list, dec)"
    by blast
  from categorize_of_decide [OF dec] obtain r where
    r: "categorize_document ex_ext ex_db ?doc ?cats (filename_counts ex_db) (Some ''TS'') 3 = Inr r"
    by blast
  note t = filename_weight_damping [of False 2 ex_ext ex_db ?doc ?cats
      "filename_counts ex_db" "Some ''TS''" scored_list dec 3 r]
  from t r have "weights r = (spec_filename_weight (is_generic_filename (document_name ?doc))
             (dup_count_of (filename_counts ex_db) ?doc), 30 / 100, 30 / 100)"
    by blast
  then have c1: "weights r = (20 / 100, 30 / 100, 30 / 100)" unfolding w .
  from decide_Inr [OF dec] obtain first rest where cons: "scored_list = first # rest" by blast
  then have "first \<in> set scored_list" by simp
  with t dec have "\<exists>c \<in> set ?cats. \<exists>a b e.
           first = (slug c, fuse_scores a b e
                  (spec_filename_weight (is_generic_filename (document_name ?doc))
                     (dup_count_of (filename_counts ex_db) ?doc),
                   30 / 100, 30 / 100), (a, b, e), c)"
    by blast
  then have c2: "\<exists>c a b e. first = (slug c, fuse_scores a b e (20 / 100, 30 / 100, 30 / 100), (a, b, e), c)"
    unfolding w by blast
  from dec cons c2 have c3: "\<exists>first rest dec c a b e.
          decide ex_ext ex_db ?doc ?cats (filename_counts ex_db) (Some ''TS'') = Inr (first # rest, dec)
          \<and> first = (slug c, fuse_scores a b e (20 / 100, 30 / 100, 30 / 100), (a, b, e), c)"
    by blast
  from ex_dup3 ex_generic3 r c1 c3 show ?thesis by blast
qed

lemma status_example:
  assumes ch: "get_chunks ex_db (row_id doc) None = Inr chunks"
    and fin: "map_sum id (\<lambda>x. d_final (snd x)) (decide ex_ext ex_db doc cats fc st) = Inr v"
  shows "\<exists>r dec sl. categorize_document ex_ext ex_db doc cats fc st 3 = Inr r
          \<and> decide ex_ext ex_db doc cats fc st = Inr (sl, dec) \<and> d_final dec = v"
proof -
  from fin obtain sl dec where dec: "decide ex_ext ex_db doc cats fc st = Inr (sl, dec)"
    by (cases "decide ex_ext ex_db doc cats fc st") auto
  with fin have "d_final dec = v" by simp
  with categorize_of_decide [OF dec] dec show ?thesis by blast
qed

theorem status_thresholds_witness:
  "(\<exists>r. categorize_document ex_ext ex_db (ex_row 2 ''rera_approval.pdf'' None) [ex_gst, ex_layout]
          (filename_counts ex_db) (Some ''TS'') 3 = Inr r \<and> status r = ''accepted'')
   \<and> (\<exists>r. categorize_document ex_ext ex_db (ex_row 5 ''Layout_Plan.pdf'' None) [ex_gst, ex_layout]
          (filename_counts ex_db) (Some ''TS'') 3 = Inr r \<and> status r = ''needs_review'')
   \<and> (\<exists>r. categorize_document ex_ext ex_db (ex_row 3 ''Site_Plan_A.pdf'' None) [ex_gst, ex_layout]
          (filename_counts ex_db) (Some ''TS'') 3 = Inr r \<and> status r = ''unassigned'')"
proof -
  let ?cats = "[ex_gst, ex_layout]"
  let ?fc = "filename_counts ex_db"
  have a: "\<exists>r. categorize_document ex_ext ex_db (ex_row 2 ''rera_approval.pdf'' None) ?cats ?fc (Some ''TS'') 3 = Inr r
            \<and> status r = ''accepted''"
  proof -
    from status_example [OF ex_chunks2 ex_final2] obtain r dec sl where
      r: "categorize_document ex_ext ex_db (ex_row 2 ''rera_approval.pdf'' None) ?cats ?fc (Some ''TS'') 3 = Inr r"
      and dec: "decide ex_ext ex_db (ex_row 2 ''rera_approval.pdf'' None) ?cats ?fc (Some ''TS'') = Inr (sl, dec)"
      and v: "d_final dec = 765 / 1000"
      by blast
    from status_thresholds [of ex_ext ex_db "ex_row 2 ''rera_approval.pdf'' None" ?cats ?fc "Some ''TS''" 3 r] r dec v
    have "status r = ''accepted''" by auto
    with r show ?thesis by blast
  qed
  have b: "\<exists>r. categorize_document ex_ext ex_db (ex_row 5 ''Layout_Plan.pdf'' None) ?cats ?fc (Some ''TS'') 3 = Inr r
            \<and> status r = ''needs_review''"
  proof -
    from status_example [OF ex_chunks5 ex_final5] obtain r dec sl where
      r: "categorize_document ex_ext ex_db (ex_row 5 ''Layout_Plan.pdf'' None) ?cats ?fc (Some ''TS'') 3 = Inr r"
      and dec: "decide ex_ext ex_db (ex_row 5 ''Layout_Plan.pdf'' None) ?cats ?fc (Some ''TS'') = Inr (sl, dec)"
      and v: "d_final dec = 65 / 100"
      by blast
    from status_thresholds [of ex_ext ex_db "ex_row 5 ''Layout_Plan.pdf'' None" ?cats ?fc "Some ''TS''" 3 r] r dec v
    have "status r = ''needs_review''" by auto
    with r show ?thesis by blast
  qed
  have c: "\<exists>r. categorize_document ex_ext ex_db (ex_row 3 ''Site_Plan_A.pdf'' None) ?cats ?fc (Some ''TS'') 3 = Inr r
            \<and> status r = ''unassigned''"
  proof -
    from status_example [OF ex_chunks3 ex_final3] obtain r dec sl where
      r: "categorize_document ex_ext ex_db (ex_row 3 ''Site_Plan_A.pdf'' None) ?cats ?fc (Some ''TS'') 3 = Inr r"
      and dec: "decide ex_ext ex_db (ex_row 3 ''Site_Plan_A.pdf'' None) ?cats ?fc (Some ''TS'') = Inr (sl, dec)"
      and v: "d_final dec = 25 / 100"
      by blast
    from status_thresholds [of ex_ext ex_db "ex_row 3 ''Site_Plan_A.pdf'' None" ?cats ?fc "Some ''TS''" 3 r] r dec v
    have "status r = ''unassigned''" by auto
    with r show ?thesis by blast
  qed
  from a b c show ?thesis by blast
qed

section \<open>Properties of the entity roles\<close>

lemma runs_width:
  "(b', rest) \<in> set (drop m (runs p (b, cs))) \<Longrightarrow> length rest + m \<le> length cs"
proof (induction cs arbitrary: b m)
  case Nil
  then show ?case by (cases m) simp_all
next
  case (Cons c cs)
  show ?case
  proof (cases m)
    case 0
    with Cons.prems have "(b', rest) = (b, c # cs) \<or> (p c \<and> (b', rest) \<in> set (drop 0 (runs p (Some c, cs))))"
      by (auto split: if_splits)
    then show ?thesis
    proof
      assume "(b', rest) = (b, c # cs)"
      with 0 show ?thesis by simp
    next
      assume "p c \<and> (b', rest) \<in> set (drop 0 (runs p (Some c, cs)))"
      then have "length rest + 0 \<le> length cs" using Cons.IH by blast
      with 0 show ?thesis by simp
    qed
  next
    case (Suc k)
    with Cons.prems have "p c \<and> (b', rest) \<in> set (drop k (runs p (Some c, cs)))"
      by (auto split: if_splits)
    then have "length rest + k \<le> length cs" using Cons.IH by blast
    with Suc show ?thesis by simp
  qed
qed

lemma ends_width:
  "(b', rest) \<in> set (ends r (b, cs)) \<Longrightarrow> length rest + min_width r \<le> length cs"
proof (induction r arbitrary: b cs b' rest)
  case Eps
  then show ?case by simp
next
  case (Atom p)
  then show ?case by (cases cs) (auto split: if_splits)
next
  case (Seq r1 r2)
  from Seq.prems obtain b1 mid where
    m1: "(b1, mid) \<in> set (ends r1 (b, cs))" and m2: "(b', rest) \<in> set (ends r2 (b1, mid))"
    by auto
  from Seq.IH(1) [OF m1] Seq.IH(2) [OF m2] show ?case by simp
next
  case (Alt r1 r2)
  from Alt.prems have "(b', rest) \<in> set (ends r1 (b, cs)) \<or> (b', rest) \<in> set (ends r2 (b, cs))"
    by simp
  then show ?case
  proof
    assume "(b', rest) \<in> set (ends r1 (b, cs))"
    from Alt.IH(1) [OF this] show ?thesis by simp
  next
    assume "(b', rest) \<in> set (ends r2 (b, cs))"
    from Alt.IH(2) [OF this] show ?thesis by simp
  qed
next
  case (Opt r)
  from Opt.prems have "(b', rest) \<in> set (ends r (b, cs)) \<or> (b', rest) = (b, cs)" by auto
  then show ?case
  proof
    assume "(b', rest) \<in> set (ends r (b, cs))"
    from Opt.IH [OF this] show ?thesis by simp
  next
    assume "(b', rest) = (b, cs)"
    then show ?thesis by simp
  qed
next
  case (Star p m greedy)
  then have "(b', rest) \<in> set (drop m (runs p (b, cs)))"
    by (simp add: Let_def split: if_splits)
  then show ?case using runs_width by simp
next
  case WordB
  then show ?case by (simp split: if_splits)
next
  case EndA
  then show ?case by (simp split: if_splits)
qed

lemma find_from_width: "find_from r b cs = Some m \<Longrightarrow> min_width r \<le> length m"
proof (induction cs arbitrary: b)
  case Nil
  show ?case
  proof (cases "ends r (b, [])")
    case Nil
    with \<open>find_from r b [] = Some m\<close> show ?thesis by simp
  next
    case (Cons e es)
    obtain b' rest where e: "e = (b', rest)" by (cases e)
    with Cons have "(b', rest) \<in> set (ends r (b, []))" by simp
    from ends_width [OF this] have "min_width r = 0" by simp
    then show ?thesis by simp
  qed
next
  case (Cons c cs)
  show ?case
  proof (cases "ends r (b, c # cs)")
    case Nil
    with Cons.prems have "find_from r (Some c) cs = Some m" by simp
    then show ?thesis by (rule Cons.IH)
  next
    case (Cons e es)
    obtain b' rest where e: "e = (b', rest)" by (cases e)
    with Cons have mem: "(b', rest) \<in> set (ends r (b, c # cs))" by simp
    from ends_width [OF mem] have w: "length rest + min_width r \<le> length (c # cs)" .
    from Cons e \<open>find_from r b (c # cs) = Some m\<close>
    have "m = take (length (c # cs) - length rest) (c # cs)" by simp
    then have "length m = length (c # cs) - length rest" by simp
    with w show ?thesis by linarith
  qed
qed

lemma search_width: "search r text = Some m \<Longrightarrow> min_width (prog r) \<le> length m"
  unfolding search_def by (rule find_from_width)

lemma width_PAN: "min_width (prog PAN_RX) = 10" by code_simp
lemma width_GSTIN: "min_width (prog GSTIN_RX) = 15" by code_simp
lemma width_LLPIN: "min_width (prog LLPIN_RX) = 12" by code_simp
lemma width_CIN: "min_width (prog CIN_RX) = 19" by code_simp

lemma pan_nonempty: "search PAN_RX text = Some p \<Longrightarrow> p \<noteq> []"
  using search_width [of PAN_RX "text" p] width_PAN by auto

lemma gstin_long: "search GSTIN_RX text = Some g \<Longrightarrow> 12 \<le> length g"
  using search_width [of GSTIN_RX "text" g] width_GSTIN by auto

lemma llpin_nonempty: "search LLPIN_RX text = Some l \<Longrightarrow> l \<noteq> []"
  using search_width [of LLPIN_RX "text" l] width_LLPIN by auto

lemma cin_nonempty: "search CIN_RX text = Some c \<Longrightarrow> c \<noteq> []"
  using search_width [of CIN_RX "text" c] width_CIN by auto

declare find_group.simps [simp del]

declare find_from.simps [simp del]

lemma first_key_None: "(first_key f ks = None) = (\<forall>k \<in> set ks. \<not> has_fact f k)"
  by (induction ks) (auto simp: has_fact_def split: option.splits)

lemma first_key_Some:
  assumes "first_key f ks = Some s"
  shows "\<exists>pre k post v. ks = pre @ k # post \<and> (\<forall>j \<in> set pre. \<not> has_fact f j)
           \<and> f k = Some v \<and> v \<noteq> [] \<and> s = k @ '':'' @ v"
  using assms
proof (induction ks)
  case Nil
  then show ?case by simp
next
  case (Cons k ks)
  show ?case
  proof (cases "has_fact f k")
    case True
    then obtain v where v: "f k = Some v" "v \<noteq> []"
      by (auto simp: has_fact_def split: option.splits)
    with Cons.prems have "s = k @ '':'' @ v" by simp
    with v have "k # ks = [] @ k # ks \<and> (\<forall>j \<in> set []. \<not> has_fact f j)
           \<and> f k = Some v \<and> v \<noteq> [] \<and> s = k @ '':'' @ v"
      by simp
    then show ?thesis by blast
  next
    case False
    with Cons.prems have "first_key f ks = Some s"
      by (auto simp: has_fact_def split: option.splits if_splits)
    from Cons.IH [OF this] obtain pre k' post v where
      "ks = pre @ k' # post" "\<forall>j \<in> set pre. \<not> has_fact f j" "f k' = Some v" "v \<noteq> []"
      "s = k' @ '':'' @ v"
      by blast
    with False have "k # ks = (k # pre) @ k' # post \<and> (\<forall>j \<in> set (k # pre). \<not> has_fact f j)
           \<and> f k' = Some v \<and> v \<noteq> [] \<and> s = k' @ '':'' @ v"
      by simp
    then show ?thesis by blast
  qed
qed

lemma first_key_hit:
  assumes "\<forall>j \<in> set pre. \<not> has_fact f j" and "f k = Some v" and "v \<noteq> []"
  shows "first_key f (pre @ k # post) = Some (k @ '':'' @ v)"
  using assms by (induction pre) (auto simp: has_fact_def split: option.splits)

text \<open>The facts of a text, read off the five searches.\<close>

lemma facts_pan:
  "extract_facts text ''pan''
     = (case search PAN_RX text of
          Some p \<Rightarrow> Some p
        | None \<Rightarrow> (case search GSTIN_RX text of
                     Some g \<Rightarrow> if length g \<ge> 12 then Some (take 10 (drop 2 g)) else None
                   | None \<Rightarrow> None))"
  by (auto simp: extract_facts_def Let_def split: option.splits)

lemma facts_gstin: "extract_facts text ''gstin'' = search GSTIN_RX text"
  by (simp add: extract_facts_def Let_def split: option.splits)

lemma facts_llpin: "extract_facts text ''llpin'' = search LLPIN_RX text"
  by (simp add: extract_facts_def Let_def split: option.splits)

lemma facts_cin: "extract_facts text ''cin'' = search CIN_RX text"
  by (simp add: extract_facts_def Let_def split: option.splits)

lemma facts_name_key:
  "extract_facts text ''name_key''
     = map_option (\<lambda>g. norm_name (strip g)) (find_group NAME_PREFIX NAME_GROUP None text)"
  by (simp add: extract_facts_def Let_def split: option.splits)

lemma cluster_add_None: "cluster_add clusters (row, None, facts, sl) = clusters"
  by (simp add: cluster_add_def)

lemma foldl_cluster_add_filter:
  "foldl cluster_add cl infos = foldl cluster_add cl (filter (\<lambda>i. fst (snd i) \<noteq> None) infos)"
proof (induction infos arbitrary: cl)
  case Nil
  show ?case by simp
next
  case (Cons i infos)
  obtain row key facts sl where i: "i = (row, key, facts, sl)" by (cases i)
  show ?case
  proof (cases key)
    case None
    then have "cluster_add cl i = cl" unfolding i by (simp add: cluster_add_None)
    with None Cons.IH [of cl] show ?thesis unfolding i by simp
  next
    case (Some k)
    with Cons.IH [of "cluster_add cl i"] show ?thesis unfolding i by simp
  qed
qed

lemma key_direct_pan:
  assumes "search PAN_RX text = Some p"
  shows "entity_key (extract_facts text) = Some (''pan:'' @ p)"
proof -
  have "extract_facts text ''pan'' = Some p" using assms by (simp add: facts_pan)
  moreover have "p \<noteq> []" using assms by (rule pan_nonempty)
  ultimately show ?thesis by (simp add: entity_key_def)
qed

lemma key_derived_pan:
  assumes "search PAN_RX text = None" and "search GSTIN_RX text = Some g"
  shows "entity_key (extract_facts text) = Some (''pan:'' @ take 10 (drop 2 g))"
proof -
  have len: "12 \<le> length g" using assms(2) by (rule gstin_long)
  then have "extract_facts text ''pan'' = Some (take 10 (drop 2 g))"
    using assms by (simp add: facts_pan)
  moreover have "take 10 (drop 2 g) \<noteq> []" using len by auto
  ultimately show ?thesis by (simp add: entity_key_def)
qed

lemma key_llpin:
  assumes "search PAN_RX text = None" and "search GSTIN_RX text = None"
    and "search LLPIN_RX text = Some l"
  shows "entity_key (extract_facts text) = Some (''llpin:'' @ l)"
proof -
  have "extract_facts text ''pan'' = None" using assms by (simp add: facts_pan)
  moreover have "extract_facts text ''gstin'' = None" using assms by (simp add: facts_gstin)
  moreover have "extract_facts text ''llpin'' = Some l" using assms by (simp add: facts_llpin)
  moreover have "l \<noteq> []" using assms(3) by (rule llpin_nonempty)
  ultimately show ?thesis by (simp add: entity_key_def)
qed

lemma key_cin:
  assumes "search PAN_RX text = None" and "search GSTIN_RX text = None"
    and "search LLPIN_RX text = None" and "search CIN_RX text = Some c"
  shows "entity_key (extract_facts text) = Some (''cin:'' @ c)"
proof -
  have "extract_facts text ''pan'' = None" using assms by (simp add: facts_pan)
  moreover have "extract_facts text ''gstin'' = None" using assms by (simp add: facts_gstin)
  moreover have "extract_facts text ''llpin'' = None" using assms by (simp add: facts_llpin)
  moreover have "extract_facts text ''cin'' = Some c" using assms by (simp add: facts_cin)
  moreover have "c \<noteq> []" using assms(4) by (rule cin_nonempty)
  ultimately show ?thesis by (simp add: entity_key_def)
qed

lemma key_name:
  assumes "search PAN_RX text = None" and "search GSTIN_RX text = None"
    and "search LLPIN_RX text = None" and "search CIN_RX text = None"
  shows "entity_key (extract_facts text)
     = (case find_group NAME_PREFIX NAME_GROUP None text of
          None \<Rightarrow> None
        | Some n \<Rightarrow> if norm_name (strip n) \<noteq> [] then Some (''name_key:'' @ norm_name (strip n)) else None)"
proof -
  have "extract_facts text ''pan'' = None" using assms by (simp add: facts_pan)
  moreover have "extract_facts text ''gstin'' = None" using assms by (simp add: facts_gstin)
  moreover have "extract_facts text ''llpin'' = None" using assms by (simp add: facts_llpin)
  moreover have "extract_facts text ''cin'' = None" using assms by (simp add: facts_cin)
  ultimately show ?thesis
    by (simp add: entity_key_def facts_name_key split: option.splits)
qed

text \<open>
  C8. The entity key is built from the first fact, in the order pan, gstin, llpin, cin,
  name_key, that is present and not empty, and there is no key exactly when none is. On
  the facts extracted from a text: a PAN found in the text is the key, whether or not a
  GSTIN is found too; the PAN cut out of characters 3 to 12 of the GSTIN is the key only
  when no PAN is found; then come the LLPIN, the CIN and the normalized name, each only
  when nothing before it is found. A document without a key is left out of the clusters.
\<close>

theorem entity_key_priority:
  "((entity_key f = None) = (\<forall>k \<in> set KEY_ORDER. \<not> has_fact f k))
   \<and> (entity_key f = Some s \<longrightarrow>
        (\<exists>pre k post v. KEY_ORDER = pre @ k # post \<and> (\<forall>j \<in> set pre. \<not> has_fact f j)
           \<and> f k = Some v \<and> v \<noteq> [] \<and> s = k @ '':'' @ v))
   \<and> (search PAN_RX t = Some p \<longrightarrow> entity_key (extract_facts t) = Some (''pan:'' @ p))
   \<and> (search PAN_RX t = None \<and> search GSTIN_RX t = Some g \<longrightarrow>
        entity_key (extract_facts t) = Some (''pan:'' @ take 10 (drop 2 g)))
   \<and> (search PAN_RX t = None \<and> search GSTIN_RX t = None \<and> search LLPIN_RX t = Some l \<longrightarrow>
        entity_key (extract_facts t) = Some (''llpin:'' @ l))
   \<and> (search PAN_RX t = None \<and> search GSTIN_RX t = None \<and> search LLPIN_RX t = None
        \<and> search CIN_RX t = Some c \<longrightarrow>
        entity_key (extract_facts t) = Some (''cin:'' @ c))
   \<and> (search PAN_RX t = None \<and> search GSTIN_RX t = None \<and> search LLPIN_RX t = None
        \<and> search CIN_RX t = None \<longrightarrow>
        entity_key (extract_facts t)
          = (case find_group NAME_PREFIX NAME_GROUP None t of
               None \<Rightarrow> None
             | Some n \<Rightarrow> if norm_name (strip n) \<noteq> []
                         then Some (''name_key:'' @ norm_name (strip n)) else None))
   \<and> cluster_add clusters (row, None, facts, sl) = clusters
   \<and> build_clusters infos = build_clusters (filter (\<lambda>i. fst (snd i) \<noteq> None) infos)"
proof -
  have a: "(entity_key f = None) = (\<forall>k \<in> set KEY_ORDER. \<not> has_fact f k)"
    unfolding entity_key_def KEY_ORDER_def by (rule first_key_None)
  have b: "entity_key f = Some s \<longrightarrow>
        (\<exists>pre k post v. KEY_ORDER = pre @ k # post \<and> (\<forall>j \<in> set pre. \<not> has_fact f j)
           \<and> f k = Some v \<and> v \<noteq> [] \<and> s = k @ '':'' @ v)"
    unfolding entity_key_def KEY_ORDER_def using first_key_Some by blast
  have c: "build_clusters infos = build_clusters (filter (\<lambda>i. fst (snd i) \<noteq> None) infos)"
    unfolding build_clusters_def by (rule foldl_cluster_add_filter)
  from a b c key_direct_pan key_derived_pan key_llpin key_cin key_name cluster_add_None
  show ?thesis by blast
qed

theorem entity_key_priority_witness:
  "search PAN_RX ''PAN ABCDE1234F GSTIN 27ZZZZZ9999Z1Z5'' = Some ''ABCDE1234F''
   \<and> search GSTIN_RX ''PAN ABCDE1234F GSTIN 27ZZZZZ9999Z1Z5'' = Some ''27ZZZZZ9999Z1Z5''
   \<and> entity_key (extract_facts ''PAN ABCDE1234F GSTIN 27ZZZZZ9999Z1Z5'') = Some ''pan:ABCDE1234F''
   \<and> search PAN_RX ''GSTIN 27ZZZZZ9999Z1Z5'' = None
   \<and> entity_key (extract_facts ''GSTIN 27ZZZZZ9999Z1Z5'') = Some ''pan:ZZZZZ9999Z''
   \<and> entity_key (extract_facts ''LLPIN: AAB-1234'') = Some ''llpin:LLPIN: AAB-1234''
   \<and> entity_key (extract_facts ''CIN U12ABC2010PTC123456'') = Some ''cin:U12ABC2010PTC123456''
   \<and> entity_key (extract_facts ''Name: Acme Widgets Pvt Ltd'') = Some ''name_key:ACME WIDGETS''
   \<and> entity_key (extract_facts ''no identifier'') = None"
proof -
  let ?t1 = "''PAN ABCDE1234F GSTIN 27ZZZZZ9999Z1Z5''"
  let ?t2 = "''GSTIN 27ZZZZZ9999Z1Z5''"
  let ?t3 = "''LLPIN: AAB-1234''"
  let ?t4 = "''CIN U12ABC2010PTC123456''"
  let ?t5 = "''Name: Acme Widgets Pvt Ltd''"
  let ?t6 = "''no identifier''"
  have p1: "search PAN_RX ?t1 = Some ''ABCDE1234F''" by code_simp
  have g1: "search GSTIN_RX ?t1 = Some ''27ZZZZZ9999Z1Z5''" by code_simp
  have p2: "search PAN_RX ?t2 = None" by code_simp
  have g2: "search GSTIN_RX ?t2 = Some ''27ZZZZZ9999Z1Z5''" by code_simp
  have p3: "search PAN_RX ?t3 = None" by code_simp
  have g3: "search GSTIN_RX ?t3 = None" by code_simp
  have l3: "search LLPIN_RX ?t3 = Some ''LLPIN: AAB-1234''" by code_simp
  have p4: "search PAN_RX ?t4 = None" by code_simp
  have g4: "search GSTIN_RX ?t4 = None" by code_simp
  have l4: "search LLPIN_RX ?t4 = None" by code_simp
  have c4: "search CIN_RX ?t4 = Some ''U12ABC2010PTC123456''" by code_simp
  have p5: "search PAN_RX ?t5 = None" by code_simp
  have g5: "search GSTIN_RX ?t5 = None" by code_simp
  have l5: "search LLPIN_RX ?t5 = None" by code_simp
  have c5: "search CIN_RX ?t5 = None" by code_simp
  have n5: "find_group NAME_PREFIX NAME_GROUP None ?t5 = Some ''Acme Widgets Pvt Ltd''" by code_simp
  have k5: "norm_name (strip ''Acme Widgets Pvt Ltd'') = ''ACME WIDGETS''" by code_simp
  have p6: "search PAN_RX ?t6 = None" by code_simp
  have g6: "search GSTIN_RX ?t6 = None" by code_simp
  have l6: "search LLPIN_RX ?t6 = None" by code_simp
  have c6: "search CIN_RX ?t6 = None" by code_simp
  have n6: "find_group NAME_PREFIX NAME_GROUP None ?t6 = None" by code_simp
  from entity_key_priority [where t = ?t1 and p = "''ABCDE1234F''"] p1
  have e1: "entity_key (extract_facts ?t1) = Some (''pan:'' @ ''ABCDE1234F'')" by blast
  from entity_key_priority [where t = ?t2 and g = "''27ZZZZZ9999Z1Z5''"] p2 g2
  have e2: "entity_key (extract_facts ?t2) = Some (''pan:'' @ take 10 (drop 2 ''27ZZZZZ9999Z1Z5''))" by blast
  from entity_key_priority [where t = ?t3 and l = "''LLPIN: AAB-1234''"] p3 g3 l3
  have e3: "entity_key (extract_facts ?t3) = Some (''llpin:'' @ ''LLPIN: AAB-1234'')" by blast
  from entity_key_priority [where t = ?t4 and c = "''U12ABC2010PTC123456''"] p4 g4 l4 c4
  have e4: "entity_key (extract_facts ?t4) = Some (''cin:'' @ ''U12ABC2010PTC123456'')" by blast
  from entity_key_priority [where t = ?t5] p5 g5 l5 c5
  have "entity_key (extract_facts ?t5)
          = (case find_group NAME_PREFIX NAME_GROUP None ?t5 of
               None \<Rightarrow> None
             | Some n \<Rightarrow> if norm_name (strip n) \<noteq> []
                         then Some (''name_key:'' @ norm_name (strip n)) else None)"
    by blast
  then have e5: "entity_key (extract_facts ?t5) = Some ''name_key:ACME WIDGETS''"
    unfolding n5 by (simp add: k5)
  from entity_key_priority [where t = ?t6] p6 g6 l6 c6
  have "entity_key (extract_facts ?t6)
          = (case find_group NAME_PREFIX NAME_GROUP None ?t6 of
               None \<Rightarrow> None
             | Some n \<Rightarrow> if norm_name (strip n) \<noteq> []
                         then Some (''name_key:'' @ norm_name (strip n)) else None)"
    by blast
  then have e6: "entity_key (extract_facts ?t6) = None" unfolding n6 by simp
  from p1 g1 e1 p2 e2 e3 e4 e5 e6 show ?thesis by simp
qed

text \<open>The clusters have distinct keys and hold exactly the documents that have a key.\<close>

lemma setdefault_update_keys:
  "map fst (setdefault_update cl k new upd) = (if k \<in> set (map fst cl) then map fst cl else map fst cl @ [k])"
proof (induction cl)
  case Nil
  show ?case by simp
next
  case (Cons kc cl)
  obtain k' c where kc: "kc = (k', c)" by (cases kc)
  show ?case
  proof (cases "k' = k")
    case True
    then show ?thesis unfolding kc by simp
  next
    case False
    then show ?thesis unfolding kc using Cons.IH by auto
  qed
qed

lemma setdefault_update_distinct:
  "distinct (map fst cl) \<Longrightarrow> distinct (map fst (setdefault_update cl k new upd))"
  by (simp add: setdefault_update_keys)

lemma setdefault_update_docs:
  assumes "\<And>c. docs (upd c) = docs c @ [row]" and "docs new = []"
  shows "mset (concat (map (\<lambda>kc. docs (snd kc)) (setdefault_update cl k new upd)))
       = add_mset row (mset (concat (map (\<lambda>kc. docs (snd kc)) cl)))"
  using assms by (induction cl) auto

lemma cluster_add_distinct:
  "distinct (map fst cl) \<Longrightarrow> distinct (map fst (cluster_add cl info))"
  by (cases info) (auto simp: cluster_add_def setdefault_update_distinct split: option.splits)

lemma build_clusters_distinct_gen:
  "distinct (map fst cl) \<Longrightarrow> distinct (map fst (foldl cluster_add cl infos))"
  by (induction infos arbitrary: cl) (simp_all add: cluster_add_distinct)

lemma build_clusters_distinct: "distinct (map fst (build_clusters infos))"
  unfolding build_clusters_def using build_clusters_distinct_gen [of "[]"] by simp

lemma cluster_add_docs:
  "mset (concat (map (\<lambda>kc. docs (snd kc)) (cluster_add cl (row, key, facts, sl))))
     = (if key = None then {#} else {#row#}) + mset (concat (map (\<lambda>kc. docs (snd kc)) cl))"
proof (cases key)
  case None
  then show ?thesis by (simp add: cluster_add_def)
next
  case (Some k)
  have "mset (concat (map (\<lambda>kc. docs (snd kc))
          (setdefault_update cl k \<lparr>docs = [], slugs = [], features = [], cluster_facts = facts\<rparr>
             (cluster_update row sl))))
       = add_mset row (mset (concat (map (\<lambda>kc. docs (snd kc)) cl)))"
    by (rule setdefault_update_docs) (simp_all add: cluster_update_def)
  with Some show ?thesis by (simp add: cluster_add_def)
qed

lemma build_clusters_docs_gen:
  "mset (concat (map (\<lambda>kc. docs (snd kc)) (foldl cluster_add cl infos)))
     = mset (map fst (filter (\<lambda>i. fst (snd i) \<noteq> None) infos))
       + mset (concat (map (\<lambda>kc. docs (snd kc)) cl))"
proof (induction infos arbitrary: cl)
  case Nil
  show ?case by simp
next
  case (Cons i infos)
  obtain row key facts sl where i: "i = (row, key, facts, sl)" by (cases i)
  show ?case
    unfolding i using Cons.IH [of "cluster_add cl (row, key, facts, sl)"]
    by (simp add: cluster_add_docs)
qed

lemma build_clusters_docs:
  "mset (concat (map (\<lambda>kc. docs (snd kc)) (build_clusters infos)))
     = mset (map fst (filter (\<lambda>i. fst (snd i) \<noteq> None) infos))"
  unfolding build_clusters_def using build_clusters_docs_gen [of "[]" infos] by simp

lemma build_clusters_empty:
  "(build_clusters infos = []) = (filter (\<lambda>i. fst (snd i) \<noteq> None) infos = [])"
proof -
  have ne: "\<And>cl k new upd. setdefault_update cl k new upd \<noteq> []"
  proof -
    fix cl :: "(string \<times> cluster) list" and k new upd
    show "setdefault_update cl k new upd \<noteq> []" by (cases cl) (auto split: if_splits)
  qed
  have gen: "\<And>cl. (foldl cluster_add cl infos = [])
      = (cl = [] \<and> filter (\<lambda>i. fst (snd i) \<noteq> None) infos = [])"
  proof (induction infos)
    case Nil
    show ?case by simp
  next
    case (Cons i infos)
    obtain row key facts sl where i: "i = (row, key, facts, sl)" by (cases i)
    show ?case
    proof (cases key)
      case None
      then show ?thesis unfolding i using Cons.IH [of cl] by (simp add: cluster_add_def)
    next
      case (Some k)
      then have "cluster_add cl i \<noteq> []" unfolding i by (simp add: cluster_add_def ne)
      with Some show ?thesis unfolding i using Cons.IH [of "cluster_add cl (row, key, facts, sl)"]
        by simp
    qed
  qed
  show ?thesis unfolding build_clusters_def using gen [of "[]"] by simp
qed

text \<open>The ranking.\<close>

lemma sort_scored_mset: "mset (sort_scored xs) = mset xs"
  unfolding sort_scored_def by (rule mset_sort_desc)

lemma sort_scored_sorted:
  "sorted_wrt (\<lambda>a b. (fst (snd a), fst (snd (snd a))) \<ge> (fst (snd b), fst (snd (snd b)))) (sort_scored xs)"
  unfolding sort_scored_def by (rule sorted_sort_desc)

lemma sort_scored_distinct:
  assumes "distinct (map fst xs)"
  shows "distinct (map fst (sort_scored xs))"
proof -
  have "mset (map fst (sort_scored xs)) = mset (map fst xs)"
    using sort_scored_mset [of xs] by (metis mset_map)
  then show ?thesis using assms by (metis distinct_count_atmost_1 set_mset_mset)
qed

lemma role_of_position:
  assumes "distinct (map fst ys)" and "i < length ys"
  shows "role_of ys (fst (ys ! i)) = role_at i"
proof -
  from assms(2) have ne: "ys \<noteq> []" by auto
  have hd0: "hd ys = ys ! 0" using ne by (simp add: hd_conv_nth)
  have inj: "\<And>j. j < length ys \<Longrightarrow> (fst (ys ! i) = fst (ys ! j)) = (i = j)"
  proof -
    fix j assume j: "j < length ys"
    have "(map fst ys ! i = map fst ys ! j) = (i = j)"
      using assms j nth_eq_iff_index_eq [of "map fst ys" i j] by simp
    moreover have "map fst ys ! i = fst (ys ! i)" using assms(2) by (rule nth_map)
    moreover have "map fst ys ! j = fst (ys ! j)" using j by (rule nth_map)
    ultimately show "(fst (ys ! i) = fst (ys ! j)) = (i = j)" by simp
  qed
  show ?thesis
  proof (cases "length ys > 1")
    case True
    with ne have "0 < length ys" "1 < length ys" by simp_all
    then have e0: "(fst (ys ! i) = fst (ys ! 0)) = (i = 0)"
      and e1: "(fst (ys ! i) = fst (ys ! Suc 0)) = (i = Suc 0)"
      using inj [of 0] inj [of "Suc 0"] by simp_all
    show ?thesis
      unfolding role_of_def role_at_def Let_def hd0 using True by (simp add: e0 e1)
  next
    case False
    with assms(2) have "i = 0" by simp
    then show ?thesis unfolding role_of_def role_at_def Let_def hd0 using False by simp
  qed
qed

lemma score_cluster_keys: "map fst (map score_cluster cl) = map fst cl"
  by (induction cl) (auto simp: score_cluster_def Let_def split: prod.splits)

lemma ranking_distinct:
  "distinct (map fst (sort_scored (map score_cluster (build_clusters infos))))"
  unfolding score_cluster_keys [symmetric]
  using sort_scored_distinct [of "map score_cluster (build_clusters infos)"]
    build_clusters_distinct [of infos] score_cluster_keys [of "build_clusters infos"]
  by metis

lemma run_Inr:
  assumes "run state apply d = Inr (d', calls, rep)"
  shows "\<exists>infos. collect_doc_info d (get_documents d None None) = Inr infos
     \<and> (if build_clusters infos = [] then d' = d \<and> calls = [] \<and> rep = NothingToAssign
         else calls = concat (map (write_back_calls (ranking infos)) (ranking infos))
            \<and> d' = foldl perform d calls
            \<and> rep = Assigned (map (\<lambda>sc. case sc of (key, dev_score, group_score, variant, c) \<Rightarrow>
                                       (role_of (ranking infos) key, key, variant, features c,
                                        dev_score, group_score))
                                (ranking infos)))"
proof (cases "collect_doc_info d (get_documents d None None)")
  case (Inl e)
  with assms show ?thesis by (simp add: run_def)
next
  case (Inr infos)
  show ?thesis
  proof (cases "build_clusters infos = []")
    case True
    with assms Inr show ?thesis by (auto simp: run_def Let_def)
  next
    case False
    with assms Inr show ?thesis by (auto simp: run_def Let_def ranking_def)
  qed
qed

lemma run_ignores_flags: "run state apply d = run state' apply' d"
  by (simp add: run_def)

lemma ranking_distinct': "distinct (map fst (ranking infos))"
  unfolding ranking_def by (rule ranking_distinct)

lemma ranking_sorted:
  "sorted_wrt (\<lambda>a b. (fst (snd a), fst (snd (snd a))) \<ge> (fst (snd b), fst (snd (snd b)))) (ranking infos)"
  unfolding ranking_def by (rule sort_scored_sorted)

lemma ranking_empty: "(ranking infos = []) = (build_clusters infos = [])"
proof -
  have "length (ranking infos) = length (build_clusters infos)"
    unfolding ranking_def sort_scored_def by (simp add: length_sort_desc)
  then show ?thesis by (metis length_0_conv)
qed

lemma report_line_scores:
  "report_scores (case sc of (key, dev_score, group_score, variant, c) \<Rightarrow>
        (role_of ys key, key, variant, features c, dev_score, group_score))
     = (fst (snd sc), fst (snd (snd sc)))"
  by (cases sc) (simp add: report_scores_def)

lemma report_line_role:
  "fst (case sc of (key, dev_score, group_score, variant, c) \<Rightarrow>
        (role_of ys key, key, variant, features c, dev_score, group_score))
     = role_of ys (fst sc)"
  by (cases sc) simp

lemma two_clusters:
  assumes "ka \<noteq> kb"
  shows "sort_scored [(kb, 4, gb, vb, cb), (ka, 10, ga, va, ca)] = [(ka, 10, ga, va, ca), (kb, 4, gb, vb, cb)]"
    and "sort_scored [(ka, 10, ga, va, ca), (kb, 4, gb, vb, cb)] = [(ka, 10, ga, va, ca), (kb, 4, gb, vb, cb)]"
  by (simp_all add: sort_scored_def sort_desc_def less_prod_def)

lemma three_clusters:
  assumes "dc < 4"
  shows "sort_scored [(kc, dc, gc, vc, cc), (kb, 4, gb, vb, cb), (ka, 10, ga, va, ca)]
       = [(ka, 10, ga, va, ca), (kb, 4, gb, vb, cb), (kc, dc, gc, vc, cc)]"
  using assms by (simp add: sort_scored_def sort_desc_def less_prod_def)

lemma write_back_ids:
  "map fst (write_back_calls ys sc) = map row_id (docs (snd (snd (snd (snd sc)))))"
  by (cases sc) (simp add: write_back_calls_def)

lemma write_back_role:
  assumes "c \<in> set (write_back_calls ys sc)"
  shows "fst (snd (snd c)) = Some (role_of ys (fst sc))"
proof -
  obtain key dv gp variant cl where sc: "sc = (key, dv, gp, variant, cl)" by (cases sc)
  from assms show ?thesis unfolding sc write_back_calls_def by auto
qed

lemma report_line_key:
  "fst (snd (case sc of (key, dev_score, group_score, variant, c) \<Rightarrow>
        (role_of ys key, key, variant, features c, dev_score, group_score)))
     = fst sc"
  by (cases sc) simp

lemma run_written_roles:
  assumes "run state apply d = Inr (d', calls, Assigned reps)"
  shows "\<exists>ys. length ys = length reps \<and> calls = concat (map (write_back_calls ys) ys)
        \<and> (\<forall>i < length ys. fst (ys ! i) = fst (snd (reps ! i))
              \<and> map fst (write_back_calls ys (ys ! i))
                  = map row_id (docs (snd (snd (snd (snd (ys ! i))))))
              \<and> (\<forall>c \<in> set (write_back_calls ys (ys ! i)). fst (snd (snd c)) = Some (role_at i)))"
proof -
  let ?line = "\<lambda>ys (sc :: scored_cluster). case sc of (key, dev_score, group_score, variant, c) \<Rightarrow>
                 (role_of ys key, key, variant, features c, dev_score, group_score)"
  from run_Inr [OF assms] obtain infos where
    calls: "calls = concat (map (write_back_calls (ranking infos)) (ranking infos))"
    and reps: "reps = map (?line (ranking infos)) (ranking infos)"
    by (auto split: if_splits)
  let ?ys = "ranking infos"
  have len: "length ?ys = length reps" unfolding reps by simp
  have each: "\<forall>i < length ?ys. fst (?ys ! i) = fst (snd (reps ! i))
              \<and> map fst (write_back_calls ?ys (?ys ! i))
                  = map row_id (docs (snd (snd (snd (snd (?ys ! i))))))
              \<and> (\<forall>c \<in> set (write_back_calls ?ys (?ys ! i)). fst (snd (snd c)) = Some (role_at i))"
  proof (intro allI impI conjI ballI)
    fix i assume i: "i < length ?ys"
    show "fst (?ys ! i) = fst (snd (reps ! i))"
      unfolding reps using i by (simp add: report_line_key)
    show "map fst (write_back_calls ?ys (?ys ! i))
                  = map row_id (docs (snd (snd (snd (snd (?ys ! i))))))"
      by (rule write_back_ids)
    fix c assume "c \<in> set (write_back_calls ?ys (?ys ! i))"
    then have "fst (snd (snd c)) = Some (role_of ?ys (fst (?ys ! i)))" by (rule write_back_role)
    also have "role_of ?ys (fst (?ys ! i)) = role_at i"
      using ranking_distinct' i by (rule role_of_position)
    finally show "fst (snd (snd c)) = Some (role_at i)" .
  qed
  from len calls each show ?thesis by blast
qed

text \<open>
  C9. The report of a run lists the clusters in descending order of the pair (developer
  score, group score), each key once, and the cluster at position 0 is the
  developer_entity, the one at position 1 the group_entity and every later one an
  other_entity; the calls of \<open>update_match\<close> go cluster by cluster in that order, one for
  each document of the cluster, and write the role of the cluster's position.
  The ranking is a rearrangement of the clusters, descending in that pair,
  and the roles go by position in it. Of two clusters with developer scores 10 and 4
  the first is the developer_entity and the second the group_entity, in whichever order
  they were formed; a third cluster, of a smaller developer score, is an other_entity.
\<close>

theorem role_assignment:
  "(run state apply d = Inr (d', calls, Assigned reps) \<longrightarrow>
       reps \<noteq> []
     \<and> sorted_wrt (\<lambda>a b. report_scores a \<ge> report_scores b) reps
     \<and> distinct (map (\<lambda>line. fst (snd line)) reps)
     \<and> (\<forall>i < length reps. fst (reps ! i) = role_at i)
     \<and> (\<exists>ys. length ys = length reps \<and> calls = concat (map (write_back_calls ys) ys)
        \<and> (\<forall>i < length ys. fst (ys ! i) = fst (snd (reps ! i))
              \<and> map fst (write_back_calls ys (ys ! i))
                  = map row_id (docs (snd (snd (snd (snd (ys ! i))))))
              \<and> (\<forall>c \<in> set (write_back_calls ys (ys ! i)). fst (snd (snd c)) = Some (role_at i)))))
   \<and> mset (sort_scored xs) = mset xs
   \<and> sorted_wrt (\<lambda>a b. (fst (snd a), fst (snd (snd a))) \<ge> (fst (snd b), fst (snd (snd b)))) (sort_scored xs)
   \<and> (distinct (map fst xs) \<and> i < length xs \<longrightarrow>
        role_of (sort_scored xs) (fst (sort_scored xs ! i)) = role_at i)
   \<and> (ka \<noteq> kb \<longrightarrow>
        role_of (sort_scored [(kb, 4, gb, vb, cb), (ka, 10, ga, va, ca)]) ka = ''developer_entity''
      \<and> role_of (sort_scored [(kb, 4, gb, vb, cb), (ka, 10, ga, va, ca)]) kb = ''group_entity'')
   \<and> (ka \<noteq> kb \<and> kc \<noteq> ka \<and> kc \<noteq> kb \<and> dc < 4 \<longrightarrow>
        role_of (sort_scored [(kc, dc, gc, vc, cc), (kb, 4, gb, vb, cb), (ka, 10, ga, va, ca)]) ka
          = ''developer_entity''
      \<and> role_of (sort_scored [(kc, dc, gc, vc, cc), (kb, 4, gb, vb, cb), (ka, 10, ga, va, ca)]) kb
          = ''group_entity''
      \<and> role_of (sort_scored [(kc, dc, gc, vc, cc), (kb, 4, gb, vb, cb), (ka, 10, ga, va, ca)]) kc
          = ''other_entity'')"
proof -
  have a: "run state apply d = Inr (d', calls, Assigned reps) \<longrightarrow>
       reps \<noteq> []
     \<and> sorted_wrt (\<lambda>a b. report_scores a \<ge> report_scores b) reps
     \<and> distinct (map (\<lambda>line. fst (snd line)) reps)
     \<and> (\<forall>i < length reps. fst (reps ! i) = role_at i)
     \<and> (\<exists>ys. length ys = length reps \<and> calls = concat (map (write_back_calls ys) ys)
        \<and> (\<forall>i < length ys. fst (ys ! i) = fst (snd (reps ! i))
              \<and> map fst (write_back_calls ys (ys ! i))
                  = map row_id (docs (snd (snd (snd (snd (ys ! i))))))
              \<and> (\<forall>c \<in> set (write_back_calls ys (ys ! i)). fst (snd (snd c)) = Some (role_at i))))"
  proof
    assume run: "run state apply d = Inr (d', calls, Assigned reps)"
    let ?line = "\<lambda>ys (sc :: scored_cluster). case sc of (key, dev_score, group_score, variant, c) \<Rightarrow>
                   (role_of ys key, key, variant, features c, dev_score, group_score)"
    from run_Inr [OF run] obtain infos where
      ne: "build_clusters infos \<noteq> []"
      and reps: "reps = map (?line (ranking infos)) (ranking infos)"
      by (auto split: if_splits)
    let ?ys = "ranking infos"
    have len: "length reps = length ?ys" unfolding reps by simp
    have r1: "reps \<noteq> []" using ne ranking_empty [of infos] len by auto
    have r2: "sorted_wrt (\<lambda>a b. report_scores a \<ge> report_scores b) reps"
      unfolding reps sorted_wrt_map report_line_scores by (rule ranking_sorted)
    have keys: "map (\<lambda>line. fst (snd line)) reps = map fst ?ys"
      unfolding reps by (auto split: prod.splits)
    have r3: "distinct (map (\<lambda>line. fst (snd line)) reps)"
      unfolding keys by (rule ranking_distinct')
    have r4: "\<forall>i < length reps. fst (reps ! i) = role_at i"
    proof (intro allI impI)
      fix i assume i: "i < length reps"
      then have i': "i < length ?ys" using len by simp
      have "fst (reps ! i) = role_of ?ys (fst (?ys ! i))"
        unfolding reps using i' by (simp add: report_line_role)
      also have "\<dots> = role_at i" using ranking_distinct' i' by (rule role_of_position)
      finally show "fst (reps ! i) = role_at i" .
    qed
    note r5 = run_written_roles [OF run]
    from r1 r2 r3 r4 r5 show "reps \<noteq> []
     \<and> sorted_wrt (\<lambda>a b. report_scores a \<ge> report_scores b) reps
     \<and> distinct (map (\<lambda>line. fst (snd line)) reps)
     \<and> (\<forall>i < length reps. fst (reps ! i) = role_at i)
     \<and> (\<exists>ys. length ys = length reps \<and> calls = concat (map (write_back_calls ys) ys)
        \<and> (\<forall>i < length ys. fst (ys ! i) = fst (snd (reps ! i))
              \<and> map fst (write_back_calls ys (ys ! i))
                  = map row_id (docs (snd (snd (snd (snd (ys ! i))))))
              \<and> (\<forall>c \<in> set (write_back_calls ys (ys ! i)). fst (snd (snd c)) = Some (role_at i))))"
      by (intro conjI)
  qed
  have b: "mset (sort_scored xs) = mset xs" by (rule sort_scored_mset)
  have c: "sorted_wrt (\<lambda>a b. (fst (snd a), fst (snd (snd a))) \<ge> (fst (snd b), fst (snd (snd b)))) (sort_scored xs)"
    by (rule sort_scored_sorted)
  have e: "distinct (map fst xs) \<and> i < length xs \<longrightarrow>
        role_of (sort_scored xs) (fst (sort_scored xs ! i)) = role_at i"
  proof
    assume h: "distinct (map fst xs) \<and> i < length xs"
    then have "distinct (map fst (sort_scored xs))" by (simp add: sort_scored_distinct)
    moreover have "i < length (sort_scored xs)"
      using h by (simp add: sort_scored_def length_sort_desc)
    ultimately show "role_of (sort_scored xs) (fst (sort_scored xs ! i)) = role_at i"
      by (rule role_of_position)
  qed
  have f: "ka \<noteq> kb \<longrightarrow>
        role_of (sort_scored [(kb, 4, gb, vb, cb), (ka, 10, ga, va, ca)]) ka = ''developer_entity''
      \<and> role_of (sort_scored [(kb, 4, gb, vb, cb), (ka, 10, ga, va, ca)]) kb = ''group_entity''"
    by (simp add: two_clusters role_of_def)
  have g: "ka \<noteq> kb \<and> kc \<noteq> ka \<and> kc \<noteq> kb \<and> dc < 4 \<longrightarrow>
        role_of (sort_scored [(kc, dc, gc, vc, cc), (kb, 4, gb, vb, cb), (ka, 10, ga, va, ca)]) ka
          = ''developer_entity''
      \<and> role_of (sort_scored [(kc, dc, gc, vc, cc), (kb, 4, gb, vb, cb), (ka, 10, ga, va, ca)]) kb
          = ''group_entity''
      \<and> role_of (sort_scored [(kc, dc, gc, vc, cc), (kb, 4, gb, vb, cb), (ka, 10, ga, va, ca)]) kc
          = ''other_entity''"
    by (simp add: three_clusters role_of_def)
  from a b c e f g show ?thesis by (intro conjI)
qed

lemma insort_desc_concat:
  "mset (concat (map g (insort_desc key x ys))) = mset (g x) + mset (concat (map g ys))"
  by (induction ys) simp_all

lemma sort_desc_concat: "mset (concat (map g (sort_desc key xs))) = mset (concat (map g xs))"
  unfolding sort_desc_def by (induction xs) (simp_all add: insort_desc_concat)

lemma score_cluster_docs: "docs (snd (snd (snd (snd (score_cluster kc))))) = docs (snd kc)"
  by (cases kc) (simp add: score_cluster_def Let_def)

lemma ranking_call_ids:
  "mset (map fst (concat (map (write_back_calls ys) (ranking infos))))
     = mset (map (\<lambda>i. row_id (fst i)) (filter (\<lambda>i. fst (snd i) \<noteq> None) infos))"
proof -
  let ?cl = "\<lambda>sc :: scored_cluster. docs (snd (snd (snd (snd sc))))"
  have "map fst (concat (map (write_back_calls ys) (ranking infos)))
      = map row_id (concat (map ?cl (ranking infos)))"
    by (simp add: map_concat comp_def write_back_ids)
  moreover have "mset (concat (map ?cl (ranking infos)))
      = mset (concat (map ?cl (map score_cluster (build_clusters infos))))"
    unfolding ranking_def sort_scored_def by (rule sort_desc_concat)
  moreover have "map ?cl (map score_cluster (build_clusters infos))
      = map (\<lambda>kc. docs (snd kc)) (build_clusters infos)"
    by (simp add: comp_def score_cluster_docs)
  ultimately have "mset (map fst (concat (map (write_back_calls ys) (ranking infos))))
      = image_mset row_id (mset (concat (map (\<lambda>kc. docs (snd kc)) (build_clusters infos))))"
    by (simp only: mset_map)
  then show ?thesis unfolding build_clusters_docs by (simp add: comp_def multiset.map_comp)
qed

lemma role_of_range:
  "role_of ys key \<in> {''developer_entity'', ''group_entity'', ''other_entity''}"
  by (simp add: role_of_def Let_def)

lemma org_variant_range:
  "org_variant_from_slugs sls \<in> {''llp'', ''partnership'', ''company''}"
  by (simp add: org_variant_from_slugs_def Let_def)

lemma write_back_roles:
  assumes "c \<in> set (write_back_calls ys sc)"
  shows "\<exists>role. fst (snd (snd c)) = Some role
           \<and> role \<in> {''developer_entity'', ''group_entity'', ''other_entity''}"
proof -
  obtain key dv gp variant cl where sc: "sc = (key, dv, gp, variant, cl)" by (cases sc)
  from assms have "fst (snd (snd c)) = Some (role_of ys key)"
    unfolding sc write_back_calls_def by auto
  then show ?thesis using role_of_range by blast
qed

lemma ranking_variants:
  assumes "sc \<in> set (ranking infos)"
  shows "fst (snd (snd (snd sc))) \<in> {''llp'', ''partnership'', ''company''}"
proof -
  from assms obtain kc where "sc = score_cluster kc"
    unfolding ranking_def sort_scored_def set_sort_desc by auto
  then have "fst (snd (snd (snd sc))) = org_variant_from_slugs (slugs (snd kc))"
    by (cases kc) (simp add: score_cluster_def Let_def)
  then show ?thesis using org_variant_range [of "slugs (snd kc)"] by simp
qed

lemma write_back_variants:
  assumes "c \<in> set (write_back_calls ys sc)"
  shows "fst (snd (snd (snd c))) = Some (fst (snd (snd (snd sc))))"
proof -
  obtain key dv gp variant cl where sc: "sc = (key, dv, gp, variant, cl)" by (cases sc)
  from assms show ?thesis unfolding sc write_back_calls_def by auto
qed

lemma collect_doc_info_rows: "collect_doc_info d rows = Inr infos \<Longrightarrow> map fst infos = rows"
  by (induction rows arbitrary: infos) (auto simp: Let_def split: sum.splits)

text \<open>What a sequence of calls of \<open>update_match\<close> does to the rows of the store.\<close>

lemma perform_row_ids: "map row_id (documents (perform d c)) = map row_id (documents d)"
  by (cases c) (simp add: perform_def update_match_def comp_def)

lemma foldl_perform_row_ids: "map row_id (documents (foldl perform d cs)) = map row_id (documents d)"
  by (induction cs arbitrary: d) (simp_all add: perform_row_ids)

lemma foldl_perform_length: "length (documents (foldl perform d cs)) = length (documents d)"
  using foldl_perform_row_ids [of d cs] by (metis length_map)

lemma foldl_perform_row_id:
  assumes "i < length (documents d)"
  shows "row_id (documents (foldl perform d cs) ! i) = row_id (documents d ! i)"
proof -
  have "row_id (documents (foldl perform d cs) ! i) = map row_id (documents (foldl perform d cs)) ! i"
    using assms by (simp add: foldl_perform_length)
  also have "\<dots> = map row_id (documents d) ! i" by (simp only: foldl_perform_row_ids)
  also have "\<dots> = row_id (documents d ! i)" using assms by simp
  finally show ?thesis .
qed

lemma perform_nth_other:
  assumes "i < length (documents d)" and "row_id (documents d ! i) \<noteq> fst c"
  shows "documents (perform d c) ! i = documents d ! i"
  using assms by (cases c) (simp add: perform_def update_match_def)

lemma perform_nth_hit:
  assumes "i < length (documents d)" and "row_id (documents d ! i) = fst c"
  shows "row_top_entity (documents (perform d c) ! i) = fst (snd (snd c))"
    and "row_org_variant (documents (perform d c) ! i) = fst (snd (snd (snd c)))"
  using assms by (cases c; simp add: perform_def update_match_def)+

lemma foldl_perform_other:
  assumes "i < length (documents d)" and "row_id (documents d ! i) \<notin> fst ` set cs"
  shows "documents (foldl perform d cs) ! i = documents d ! i"
  using assms
proof (induction cs rule: rev_induct)
  case Nil
  show ?case by simp
next
  case (snoc c cs)
  let ?d = "foldl perform d cs"
  from snoc.prems have i: "i < length (documents ?d)" by (simp add: foldl_perform_length)
  from snoc.prems have "row_id (documents ?d ! i) \<noteq> fst c"
    by (simp add: foldl_perform_row_id)
  with i have "documents (perform ?d c) ! i = documents ?d ! i" by (rule perform_nth_other)
  moreover from snoc have "documents ?d ! i = documents d ! i" by simp
  ultimately show ?case by simp
qed

lemma foldl_perform_hit:
  assumes "i < length (documents d)" and "row_id (documents d ! i) \<in> fst ` set cs"
    and "\<forall>c \<in> set cs. fst (snd (snd c)) \<in> A \<and> fst (snd (snd (snd c))) \<in> B"
  shows "row_top_entity (documents (foldl perform d cs) ! i) \<in> A
       \<and> row_org_variant (documents (foldl perform d cs) ! i) \<in> B"
  using assms
proof (induction cs rule: rev_induct)
  case Nil
  then show ?case by simp
next
  case (snoc c cs)
  let ?d = "foldl perform d cs"
  from snoc.prems have i: "i < length (documents ?d)" by (simp add: foldl_perform_length)
  from snoc.prems have id: "row_id (documents ?d ! i) = row_id (documents d ! i)"
    by (simp add: foldl_perform_row_id)
  show ?case
  proof (cases "row_id (documents d ! i) = fst c")
    case True
    with id have hit: "row_id (documents ?d ! i) = fst c" by simp
    from snoc.prems have "fst (snd (snd c)) \<in> A" "fst (snd (snd (snd c))) \<in> B" by simp_all
    then show ?thesis using perform_nth_hit [OF i hit] by simp
  next
    case False
    with id have "row_id (documents ?d ! i) \<noteq> fst c" by simp
    with i have same: "documents (perform ?d c) ! i = documents ?d ! i" by (rule perform_nth_other)
    from False snoc.prems have "row_id (documents d ! i) \<in> fst ` set cs" by auto
    with snoc have "row_top_entity (documents ?d ! i) \<in> A \<and> row_org_variant (documents ?d ! i) \<in> B"
      by simp
    with same show ?thesis by simp
  qed
qed

lemma run_calls:
  assumes "run state apply d = Inr (d', calls, rep)"
  shows "\<exists>infos. collect_doc_info d (get_documents d None None) = Inr infos
           \<and> map fst infos = get_documents d None None
           \<and> d' = foldl perform d calls
           \<and> mset (map fst calls)
               = mset (map (\<lambda>i. row_id (fst i)) (filter (\<lambda>i. fst (snd i) \<noteq> None) infos))
           \<and> (\<forall>c \<in> set calls.
                  fst (snd (snd c)) \<in> Some ` {''developer_entity'', ''group_entity'', ''other_entity''}
                \<and> fst (snd (snd (snd c))) \<in> Some ` {''llp'', ''partnership'', ''company''})"
proof -
  from run_Inr [OF assms] obtain infos where
    infos: "collect_doc_info d (get_documents d None None) = Inr infos"
    and cases: "if build_clusters infos = [] then d' = d \<and> calls = [] \<and> rep = NothingToAssign
         else calls = concat (map (write_back_calls (ranking infos)) (ranking infos))
            \<and> d' = foldl perform d calls
            \<and> rep = Assigned (map (\<lambda>sc. case sc of (key, dev_score, group_score, variant, c) \<Rightarrow>
                                       (role_of (ranking infos) key, key, variant, features c,
                                        dev_score, group_score))
                                (ranking infos))"
    by blast
  have rows: "map fst infos = get_documents d None None"
    using infos by (rule collect_doc_info_rows)
  have "d' = foldl perform d calls
           \<and> mset (map fst calls)
               = mset (map (\<lambda>i. row_id (fst i)) (filter (\<lambda>i. fst (snd i) \<noteq> None) infos))
           \<and> (\<forall>c \<in> set calls.
                  fst (snd (snd c)) \<in> Some ` {''developer_entity'', ''group_entity'', ''other_entity''}
                \<and> fst (snd (snd (snd c))) \<in> Some ` {''llp'', ''partnership'', ''company''})"
  proof (cases "build_clusters infos = []")
    case True
    with cases have "d' = d" "calls = []" by simp_all
    moreover from True have "filter (\<lambda>i. fst (snd i) \<noteq> None) infos = []"
      by (simp add: build_clusters_empty)
    ultimately show ?thesis by simp
  next
    case False
    with cases have calls: "calls = concat (map (write_back_calls (ranking infos)) (ranking infos))"
      and d': "d' = foldl perform d calls"
      by simp_all
    have ids: "mset (map fst calls)
               = mset (map (\<lambda>i. row_id (fst i)) (filter (\<lambda>i. fst (snd i) \<noteq> None) infos))"
      unfolding calls by (rule ranking_call_ids)
    have fields: "\<forall>c \<in> set calls.
                  fst (snd (snd c)) \<in> Some ` {''developer_entity'', ''group_entity'', ''other_entity''}
                \<and> fst (snd (snd (snd c))) \<in> Some ` {''llp'', ''partnership'', ''company''}"
    proof
      fix c assume "c \<in> set calls"
      then obtain sc where sc: "sc \<in> set (ranking infos)"
        and c: "c \<in> set (write_back_calls (ranking infos) sc)"
        unfolding calls by auto
      from write_back_roles [OF c] have
        "fst (snd (snd c)) \<in> Some ` {''developer_entity'', ''group_entity'', ''other_entity''}"
        by blast
      moreover from write_back_variants [OF c] ranking_variants [OF sc] have
        "fst (snd (snd (snd c))) \<in> Some ` {''llp'', ''partnership'', ''company''}"
        by blast
      ultimately show
        "fst (snd (snd c)) \<in> Some ` {''developer_entity'', ''group_entity'', ''other_entity''}
       \<and> fst (snd (snd (snd c))) \<in> Some ` {''llp'', ''partnership'', ''company''}" ..
    qed
    from d' ids fields show ?thesis by blast
  qed
  with infos rows show ?thesis by blast
qed

lemma ex2_run:
  "map_sum id (\<lambda>x. (map fst (fst (snd x)), map row_top_entity (documents (fst x)),
                     (case snd (snd x) of
                        NothingToAssign \<Rightarrow> []
                      | Assigned reps \<Rightarrow> map (\<lambda>l. (fst (snd l), report_scores l)) reps)))
     (run ''TS'' False ex_db2)
   = Inr ([3, 4, 2, 1],
          [None, Some ''developer_entity'', Some ''other_entity'', Some ''developer_entity'',
           Some ''group_entity''],
          [(''pan:ABCDE1234F'', (3, 1)), (''pan:PQRST5678U'', (1, 1)), (''pan:KLMNO4321P'', (0, 0))])"
  by code_simp

lemma ex2_result:
  "\<exists>d' calls rep. run ''TS'' False (ex_db2 :: unit db) = Inr (d', calls, rep)
     \<and> map fst calls = [3, 4, 2, 1]
     \<and> map row_top_entity (documents d')
         = [None, Some ''developer_entity'', Some ''other_entity'', Some ''developer_entity'',
            Some ''group_entity'']"
proof (cases "run ''TS'' False (ex_db2 :: unit db)")
  case (Inl e)
  with ex2_run show ?thesis by simp
next
  case (Inr x)
  obtain d' calls rep where x: "x = (d', calls, rep)" by (cases x)
  from ex2_run have "map fst calls = [3, 4, 2, 1]
     \<and> map row_top_entity (documents d')
         = [None, Some ''developer_entity'', Some ''other_entity'', Some ''developer_entity'',
            Some ''group_entity'']"
    unfolding Inr x by simp
  with Inr x show ?thesis by simp
qed

lemma ex2_report:
  "\<exists>d' calls a b c. run ''TS'' False (ex_db2 :: unit db) = Inr (d', calls, Assigned [a, b, c])
     \<and> map (\<lambda>l. (fst (snd l), report_scores l)) [a, b, c]
      = [(''pan:ABCDE1234F'', (3, 1)), (''pan:PQRST5678U'', (1, 1)), (''pan:KLMNO4321P'', (0, 0))]"
proof (cases "run ''TS'' False (ex_db2 :: unit db)")
  case (Inl e)
  with ex2_run show ?thesis by simp
next
  case (Inr x)
  obtain d' calls rep where x: "x = (d', calls, rep)" by (cases x)
  show ?thesis
  proof (cases rep)
    case NothingToAssign
    with ex2_run show ?thesis unfolding Inr x by simp
  next
    case (Assigned reps)
    from ex2_run have ks: "map (\<lambda>l. (fst (snd l), report_scores l)) reps
      = [(''pan:ABCDE1234F'', (3, 1)), (''pan:PQRST5678U'', (1, 1)), (''pan:KLMNO4321P'', (0, 0))]"
      unfolding Inr x Assigned by simp
    from arg_cong [where f = length, OF ks] have len: "length reps = Suc (Suc (Suc 0))" by simp
    then obtain a b c where abc: "reps = [a, b, c]"
      by (auto simp: length_Suc_conv)
    from Inr x Assigned abc ks show ?thesis by simp
  qed
qed

text \<open>
  C7. \<open>run\<close> does not consult its \<open>apply\<close> parameter (nor \<open>state\<close>): the result is the same
  for every value of it. Whenever a run with \<open>apply = False\<close> returns, the store it leaves
  is the store after its calls of \<open>update_match\<close>, and there is one call for each document
  that has an entity key, that is for every document of every cluster; each call writes
  one of the three roles and one of the three organization variants. In the store, the
  rows keep their ids; a row some call names comes out with such a role and variant, and
  every other row is untouched.
\<close>

theorem role_inference_ignores_apply:
  "run state apply d = run state' apply' d
   \<and> (run state False d = Inr (d', calls, rep) \<longrightarrow>
        (\<exists>infos. collect_doc_info d (get_documents d None None) = Inr infos
           \<and> map fst infos = get_documents d None None
           \<and> d' = foldl perform d calls
           \<and> mset (map fst calls)
               = mset (map (\<lambda>i. row_id (fst i)) (filter (\<lambda>i. fst (snd i) \<noteq> None) infos))
           \<and> (\<forall>c \<in> set calls.
                  fst (snd (snd c)) \<in> Some ` {''developer_entity'', ''group_entity'', ''other_entity''}
                \<and> fst (snd (snd (snd c))) \<in> Some ` {''llp'', ''partnership'', ''company''}))
      \<and> map row_id (documents d') = map row_id (documents d)
      \<and> (\<forall>i < length (documents d).
            if row_id (documents d ! i) \<in> fst ` set calls
            then row_top_entity (documents d' ! i)
                   \<in> Some ` {''developer_entity'', ''group_entity'', ''other_entity''}
               \<and> row_org_variant (documents d' ! i) \<in> Some ` {''llp'', ''partnership'', ''company''}
            else documents d' ! i = documents d ! i))"
proof (intro conjI impI)
  show "run state apply d = run state' apply' d" by (rule run_ignores_flags)
next
  assume run: "run state False d = Inr (d', calls, rep)"
  from run_calls [OF run] obtain infos where
    infos: "collect_doc_info d (get_documents d None None) = Inr infos"
    and rows: "map fst infos = get_documents d None None"
    and d': "d' = foldl perform d calls"
    and ids: "mset (map fst calls)
               = mset (map (\<lambda>i. row_id (fst i)) (filter (\<lambda>i. fst (snd i) \<noteq> None) infos))"
    and fields: "\<forall>c \<in> set calls.
                  fst (snd (snd c)) \<in> Some ` {''developer_entity'', ''group_entity'', ''other_entity''}
                \<and> fst (snd (snd (snd c))) \<in> Some ` {''llp'', ''partnership'', ''company''}"
    by blast
  from infos rows d' ids fields
  show "\<exists>infos. collect_doc_info d (get_documents d None None) = Inr infos
           \<and> map fst infos = get_documents d None None
           \<and> d' = foldl perform d calls
           \<and> mset (map fst calls)
               = mset (map (\<lambda>i. row_id (fst i)) (filter (\<lambda>i. fst (snd i) \<noteq> None) infos))
           \<and> (\<forall>c \<in> set calls.
                  fst (snd (snd c)) \<in> Some ` {''developer_entity'', ''group_entity'', ''other_entity''}
                \<and> fst (snd (snd (snd c))) \<in> Some ` {''llp'', ''partnership'', ''company''})"
    by blast
  show "map row_id (documents d') = map row_id (documents d)"
    unfolding d' by (rule foldl_perform_row_ids)
  show "\<forall>i < length (documents d).
            if row_id (documents d ! i) \<in> fst ` set calls
            then row_top_entity (documents d' ! i)
                   \<in> Some ` {''developer_entity'', ''group_entity'', ''other_entity''}
               \<and> row_org_variant (documents d' ! i) \<in> Some ` {''llp'', ''partnership'', ''company''}
            else documents d' ! i = documents d ! i"
  proof (intro allI impI)
    fix i assume i: "i < length (documents d)"
    show "if row_id (documents d ! i) \<in> fst ` set calls
            then row_top_entity (documents d' ! i)
                   \<in> Some ` {''developer_entity'', ''group_entity'', ''other_entity''}
               \<and> row_org_variant (documents d' ! i) \<in> Some ` {''llp'', ''partnership'', ''company''}
            else documents d' ! i = documents d ! i"
    proof (cases "row_id (documents d ! i) \<in> fst ` set calls")
      case True
      from foldl_perform_hit [OF i True fields] True show ?thesis unfolding d' by simp
    next
      case False
      from foldl_perform_other [OF i False] False show ?thesis unfolding d' by simp
    qed
  qed
qed

theorem role_inference_ignores_apply_witness:
  "\<exists>d' calls rep. run ''TS'' False ex_db2 = Inr (d', calls, rep)
     \<and> run ''TS'' True ex_db2 = Inr (d', calls, rep)
     \<and> d' = foldl perform ex_db2 calls
     \<and> map fst calls = [3, 4, 2, 1]
     \<and> map row_id (documents d') = [5, 3, 1, 4, 2]
     \<and> map row_top_entity (documents ex_db2) = [None, None, None, None, None]
     \<and> map row_top_entity (documents d')
         = [None, Some ''developer_entity'', Some ''other_entity'', Some ''developer_entity'',
            Some ''group_entity'']"
proof -
  from ex2_result obtain d' calls rep where
    run: "run ''TS'' False (ex_db2 :: unit db) = Inr (d', calls, rep)"
    and c: "map fst calls = [3, 4, 2, 1]"
    and after: "map row_top_entity (documents d')
         = [None, Some ''developer_entity'', Some ''other_entity'', Some ''developer_entity'',
            Some ''group_entity'']"
    by (elim exE conjE) (rule that)
  note th = role_inference_ignores_apply [of "''TS''" True ex_db2 "''TS''" False d' calls rep]
  have same: "run ''TS'' True ex_db2 = run ''TS'' False ex_db2" using th by (rule conjunct1)
  have imp: "run ''TS'' False ex_db2 = Inr (d', calls, rep) \<longrightarrow>
        (\<exists>infos. collect_doc_info ex_db2 (get_documents ex_db2 None None) = Inr infos
           \<and> map fst infos = get_documents ex_db2 None None
           \<and> d' = foldl perform ex_db2 calls
           \<and> mset (map fst calls)
               = mset (map (\<lambda>i. row_id (fst i)) (filter (\<lambda>i. fst (snd i) \<noteq> None) infos))
           \<and> (\<forall>c \<in> set calls.
                  fst (snd (snd c)) \<in> Some ` {''developer_entity'', ''group_entity'', ''other_entity''}
                \<and> fst (snd (snd (snd c))) \<in> Some ` {''llp'', ''partnership'', ''company''}))
      \<and> map row_id (documents d') = map row_id (documents ex_db2)
      \<and> (\<forall>i < length (documents ex_db2).
            if row_id (documents ex_db2 ! i) \<in> fst ` set calls
            then row_top_entity (documents d' ! i)
                   \<in> Some ` {''developer_entity'', ''group_entity'', ''other_entity''}
               \<and> row_org_variant (documents d' ! i) \<in> Some ` {''llp'', ''partnership'', ''company''}
            else documents d' ! i = documents ex_db2 ! i)"
    using th by (rule conjunct2)
  from imp run have all: "(\<exists>infos. collect_doc_info ex_db2 (get_documents ex_db2 None None) = Inr infos
           \<and> map fst infos = get_documents ex_db2 None None
           \<and> d' = foldl perform ex_db2 calls
           \<and> mset (map fst calls)
               = mset (map (\<lambda>i. row_id (fst i)) (filter (\<lambda>i. fst (snd i) \<noteq> None) infos))
           \<and> (\<forall>c \<in> set calls.
                  fst (snd (snd c)) \<in> Some ` {''developer_entity'', ''group_entity'', ''other_entity''}
                \<and> fst (snd (snd (snd c))) \<in> Some ` {''llp'', ''partnership'', ''company''}))
      \<and> map row_id (documents d') = map row_id (documents ex_db2)
      \<and> (\<forall>i < length (documents ex_db2).
            if row_id (documents ex_db2 ! i) \<in> fst ` set calls
            then row_top_entity (documents d' ! i)
                   \<in> Some ` {''developer_entity'', ''group_entity'', ''other_entity''}
               \<and> row_org_variant (documents d' ! i) \<in> Some ` {''llp'', ''partnership'', ''company''}
            else documents d' ! i = documents ex_db2 ! i)"
    by (rule mp)
  from all have d': "d' = foldl perform ex_db2 calls" by (elim conjE exE)
  from all have "map row_id (documents d') = map row_id (documents ex_db2)
      \<and> (\<forall>i < length (documents ex_db2).
            if row_id (documents ex_db2 ! i) \<in> fst ` set calls
            then row_top_entity (documents d' ! i)
                   \<in> Some ` {''developer_entity'', ''group_entity'', ''other_entity''}
               \<and> row_org_variant (documents d' ! i) \<in> Some ` {''llp'', ''partnership'', ''company''}
            else documents d' ! i = documents ex_db2 ! i)"
    by (rule conjunct2)
  then have ids: "map row_id (documents d') = map row_id (documents ex_db2)" by (rule conjunct1)
  have ids0: "map row_id (documents ex_db2) = [5, 3, 1, 4, 2]"
    by (simp add: ex_db2_def ex_row_def)
  have before: "map row_top_entity (documents ex_db2) = [None, None, None, None, None]"
    by (simp add: ex_db2_def ex_row_def)
  from same run have run': "run ''TS'' True ex_db2 = Inr (d', calls, rep)" by (rule trans)
  from ids ids0 have ids': "map row_id (documents d') = [5, 3, 1, 4, 2]" by (rule trans)
  show ?thesis
    by (intro exI conjI) (rule run, rule run', rule d', rule c, rule ids', rule before, rule after)
qed

theorem role_assignment_witness:
  "(\<exists>d' calls reps. run ''TS'' False ex_db2 = Inr (d', calls, Assigned reps)
      \<and> map (\<lambda>line. (fst line, fst (snd line), report_scores line)) reps
          = [(''developer_entity'', ''pan:ABCDE1234F'', (3, 1)),
             (''group_entity'', ''pan:PQRST5678U'', (1, 1)),
             (''other_entity'', ''pan:KLMNO4321P'', (0, 0))])
   \<and> map fst (sort_scored ex_three) = [''k1'', ''k2'', ''k3'']
   \<and> map (role_of (sort_scored ex_three)) [''k1'', ''k2'', ''k3'']
       = [''developer_entity'', ''group_entity'', ''other_entity'']
   \<and> map (role_of (sort_scored (tl ex_three))) [''k1'', ''k2'']
       = [''developer_entity'', ''group_entity'']
   \<and> role_of (sort_scored ex_three) (fst (sort_scored ex_three ! 2)) = ''other_entity''"
proof -
  from ex2_report obtain d' calls a b c where
    run: "run ''TS'' False (ex_db2 :: unit db) = Inr (d', calls, Assigned [a, b, c])"
    and ks: "map (\<lambda>l. (fst (snd l), report_scores l)) [a, b, c]
      = [(''pan:ABCDE1234F'', (3, 1)), (''pan:PQRST5678U'', (1, 1)), (''pan:KLMNO4321P'', (0, 0))]"
    by (elim exE conjE) (rule that)
  note th = role_assignment [where d = ex_db2 and d' = d' and calls = calls and reps = "[a, b, c]"
      and xs = ex_three
      and i = 2 and ka = "''k1''" and kb = "''k2''" and kc = "''k3''" and dc = 1
      and ga = 2 and gb = 0 and gc = 1 and va = "''company''" and vb = "''company''" and vc = "''llp''"
      and ca = ex_cluster and cb = ex_cluster and cc = ex_cluster]
  note report = th [THEN conjunct1, THEN mp, OF run]
  note roles = report [THEN conjunct2, THEN conjunct2, THEN conjunct2, THEN conjunct1]
  have "fst ([a, b, c] ! 0) = role_at 0" "fst ([a, b, c] ! 1) = role_at 1"
    "fst ([a, b, c] ! 2) = role_at 2"
    using roles [THEN spec, of 0] roles [THEN spec, of 1] roles [THEN spec, of 2] by simp_all
  then have r: "fst a = ''developer_entity''" "fst b = ''group_entity''" "fst c = ''other_entity''"
    by (simp_all add: role_at_def)
  from ks r have first: "map (\<lambda>line. (fst line, fst (snd line), report_scores line)) [a, b, c]
          = [(''developer_entity'', ''pan:ABCDE1234F'', (3, 1)),
             (''group_entity'', ''pan:PQRST5678U'', (1, 1)),
             (''other_entity'', ''pan:KLMNO4321P'', (0, 0))]"
    by simp
  have sorted3: "map fst (sort_scored ex_three) = [''k1'', ''k2'', ''k3'']"
    by (simp add: ex_three_def sort_scored_def sort_desc_def less_prod_def)
  note rest = th [THEN conjunct2, THEN conjunct2, THEN conjunct2, THEN conjunct2]
  have k: "''k1'' \<noteq> ''k2''" "''k3'' \<noteq> ''k1''" "''k3'' \<noteq> ''k2''" by simp_all
  have e3: "ex_three = [(''k3'', 1, 1, ''llp'', ex_cluster), (''k2'', 4, 0, ''company'', ex_cluster),
                        (''k1'', 10, 2, ''company'', ex_cluster)]"
    by (simp add: ex_three_def)
  have e2: "tl ex_three = [(''k2'', 4, 0, ''company'', ex_cluster), (''k1'', 10, 2, ''company'', ex_cluster)]"
    by (simp add: ex_three_def)
  from rest [THEN conjunct1, THEN mp, OF k(1)]
  have two: "map (role_of (sort_scored (tl ex_three))) [''k1'', ''k2'']
       = [''developer_entity'', ''group_entity'']"
    unfolding e2 by simp
  have hyp: "''k1'' \<noteq> ''k2'' \<and> ''k3'' \<noteq> ''k1'' \<and> ''k3'' \<noteq> ''k2'' \<and> (1 :: int) < 4" by simp
  from rest [THEN conjunct2, THEN mp, OF hyp]
  have three: "map (role_of (sort_scored ex_three)) [''k1'', ''k2'', ''k3'']
       = [''developer_entity'', ''group_entity'', ''other_entity'']"
    unfolding e3 by simp
  have pos_hyp: "distinct (map fst ex_three) \<and> 2 < length ex_three"
    by (simp add: ex_three_def)
  note pos = th [THEN conjunct2, THEN conjunct2, THEN conjunct2, THEN conjunct1, THEN mp, OF pos_hyp]
  have third: "role_of (sort_scored ex_three) (fst (sort_scored ex_three ! 2)) = ''other_entity''"
    using pos by (simp add: role_at_def)
  from run first have "\<exists>d' calls reps. run ''TS'' False ex_db2 = Inr (d', calls, Assigned reps)
      \<and> map (\<lambda>line. (fst line, fst (snd line), report_scores line)) reps
          = [(''developer_entity'', ''pan:ABCDE1234F'', (3, 1)),
             (''group_entity'', ''pan:PQRST5678U'', (1, 1)),
             (''other_entity'', ''pan:KLMNO4321P'', (0, 0))]"
    by (intro exI conjI)
  with sorted3 three two third show ?thesis by (intro conjI)
qed

end
